theory Spec2Isabelle
  imports Complex_Main "HOL-Library.Monad_Syntax" "HOL-Library.Word"
begin

section \<open>JavaScript numbers\<close>

text \<open>
  The worker computes page counts and percentages with JavaScript numbers, which are
  IEEE 754 binary64 values. A finite value is kept as the rational it denotes; the two
  infinities and NaN are separate constructors. The two zeros are not distinguished:
  the worker never divides by a zero and never prints one.
\<close>

datatype jsnum = Fin rat | PosInf | NegInf | NaN

text \<open>The number of binary digits of a natural number.\<close>

fun bitlen :: "nat \<Rightarrow> nat" where
  "bitlen n = (if n = 0 then 0 else Suc (bitlen (n div 2)))"

declare bitlen.simps [simp del]

definition pow2 :: "int \<Rightarrow> rat" where
  "pow2 k = (if 0 \<le> k then 2 ^ nat k else 1 / 2 ^ nat (- k))"

text \<open>For \<open>a > 0\<close>, the exponent \<open>e\<close> with \<open>2^e \<le> a < 2^(e+1)\<close>.\<close>

definition ilog2 :: "rat \<Rightarrow> int" where
  "ilog2 a = (if 1 \<le> a then int (bitlen (nat \<lfloor>a\<rfloor>)) - 1
              else - int (bitlen (nat (\<lceil>1 / a\<rceil> - 1))))"

text \<open>Rounding to the nearest integer, a tie going to the even neighbour.\<close>

definition half_even :: "rat \<Rightarrow> int" where
  "half_even x = (let f = \<lfloor>x\<rfloor>; r = x - of_int f in
     if r < 1 / 2 then f else if 1 / 2 < r then f + 1 else if even f then f else f + 1)"

text \<open>
  Rounding a positive rational to 53 significant bits, the unit in the last place
  never below \<open>2^-1074\<close> (the subnormal range).
\<close>

definition rnd_mag :: "rat \<Rightarrow> rat" where
  "rnd_mag a = (let u = max (ilog2 a - 52) (- 1074) in of_int (half_even (a / pow2 u)) * pow2 u)"

text \<open>Round to nearest, ties to even, overflowing to an infinity from \<open>2^1024\<close> on.\<close>

definition rnd :: "rat \<Rightarrow> jsnum" where
  "rnd q = (if q = 0 then Fin 0 else
     let r = rnd_mag \<bar>q\<bar> in
     if 2 ^ 1024 \<le> r then (if 0 < q then PosInf else NegInf)
     else Fin (if 0 < q then r else - r))"

fun js_neg :: "jsnum \<Rightarrow> jsnum" where
  "js_neg (Fin x) = Fin (- x)"
| "js_neg PosInf = NegInf"
| "js_neg NegInf = PosInf"
| "js_neg NaN = NaN"

fun js_sgn :: "jsnum \<Rightarrow> int" where
  "js_sgn (Fin x) = (if x < 0 then - 1 else if x = 0 then 0 else 1)"
| "js_sgn PosInf = 1"
| "js_sgn NegInf = - 1"
| "js_sgn NaN = 0"

definition of_sign :: "int \<Rightarrow> jsnum" where
  "of_sign s = (if s = 0 then NaN else if 0 < s then PosInf else NegInf)"

text \<open>The operators \<open>+\<close>, \<open>-\<close>, \<open>*\<close> and \<open>/\<close>.\<close>

fun js_add :: "jsnum \<Rightarrow> jsnum \<Rightarrow> jsnum" where
  "js_add (Fin x) (Fin y) = rnd (x + y)"
| "js_add NaN b = NaN"
| "js_add a NaN = NaN"
| "js_add PosInf NegInf = NaN"
| "js_add NegInf PosInf = NaN"
| "js_add PosInf b = PosInf"
| "js_add NegInf b = NegInf"
| "js_add (Fin x) b = b"

definition js_sub :: "jsnum \<Rightarrow> jsnum \<Rightarrow> jsnum" where
  "js_sub a b = js_add a (js_neg b)"

fun js_mul :: "jsnum \<Rightarrow> jsnum \<Rightarrow> jsnum" where
  "js_mul (Fin x) (Fin y) = rnd (x * y)"
| "js_mul NaN b = NaN"
| "js_mul a NaN = NaN"
| "js_mul a b = of_sign (js_sgn a * js_sgn b)"

fun js_div :: "jsnum \<Rightarrow> jsnum \<Rightarrow> jsnum" where
  "js_div (Fin x) (Fin y) = (if y = 0 then of_sign (js_sgn (Fin x)) else rnd (x / y))"
| "js_div NaN b = NaN"
| "js_div a NaN = NaN"
| "js_div (Fin x) b = Fin 0"
| "js_div a (Fin y) = of_sign (js_sgn a * (if y < 0 then - 1 else 1))"
| "js_div a b = NaN"

text \<open>The comparisons \<open><\<close> and \<open><=\<close>; \<open>a > b\<close> is \<open>js_lt b a\<close> and \<open>a >= b\<close> is \<open>js_le b a\<close>.\<close>

fun js_lt :: "jsnum \<Rightarrow> jsnum \<Rightarrow> bool" where
  "js_lt (Fin x) (Fin y) = (x < y)"
| "js_lt NaN b = False"
| "js_lt a NaN = False"
| "js_lt a NegInf = False"
| "js_lt PosInf b = False"
| "js_lt a b = True"

definition js_le :: "jsnum \<Rightarrow> jsnum \<Rightarrow> bool" where
  "js_le a b = (a \<noteq> NaN \<and> b \<noteq> NaN \<and> (a = b \<or> js_lt a b))"

text \<open>\<open>Math.floor\<close>, \<open>Math.min\<close>, \<open>Math.max\<close>, \<open>Number.isFinite\<close> and truthiness.\<close>

fun js_floor :: "jsnum \<Rightarrow> jsnum" where
  "js_floor (Fin x) = Fin (of_int \<lfloor>x\<rfloor>)"
| "js_floor a = a"

definition js_min :: "jsnum \<Rightarrow> jsnum \<Rightarrow> jsnum" where
  "js_min a b = (if a = NaN \<or> b = NaN then NaN else if js_lt b a then b else a)"

definition js_max :: "jsnum \<Rightarrow> jsnum \<Rightarrow> jsnum" where
  "js_max a b = (if a = NaN \<or> b = NaN then NaN else if js_lt a b then b else a)"

fun isFinite :: "jsnum \<Rightarrow> bool" where
  "isFinite (Fin x) = True"
| "isFinite a = False"

definition truthy :: "jsnum \<Rightarrow> bool" where
  "truthy a = (a \<noteq> NaN \<and> a \<noteq> Fin 0)"

section \<open>Strings and the three regular expressions\<close>

text \<open>
  A JavaScript string is a sequence of UTF-16 code units, here natural numbers;
  \<open>str\<close> embeds an ASCII literal.
\<close>

type_synonym jsstring = "nat list"

definition str :: "string \<Rightarrow> jsstring" where
  "str s = map of_char s"

text \<open>The class \<open>\d\<close> is the ten ASCII digits.\<close>

definition is_digit :: "nat \<Rightarrow> bool" where
  "is_digit c = (48 \<le> c \<and> c \<le> 57)"

text \<open>The class \<open>\s\<close>: the white space and line terminator code units of ECMAScript.\<close>

definition is_space :: "nat \<Rightarrow> bool" where
  "is_space c = (c \<in> {9, 10, 11, 12, 13, 32, 160, 5760, 8232, 8233, 8239, 8287, 12288, 65279}
                 \<or> (8192 \<le> c \<and> c \<le> 8202))"

text \<open>
  Under the flag \<open>i\<close> (without \<open>u\<close>) both sides are canonicalised by upper-casing,
  and a code unit from 128 on is never mapped below 128. Against the ASCII letters and
  the space of the two patterns this is the ASCII upper-casing.
\<close>

definition canon :: "nat \<Rightarrow> nat" where
  "canon c = (if 97 \<le> c \<and> c \<le> 122 then c - 32 else c)"

fun lit_ci :: "jsstring \<Rightarrow> jsstring \<Rightarrow> jsstring option" where
  "lit_ci [] s = Some s"
| "lit_ci (p # ps) [] = None"
| "lit_ci (p # ps) (c # cs) = (if canon c = canon p then lit_ci ps cs else None)"

fun lit :: "jsstring \<Rightarrow> jsstring \<Rightarrow> jsstring option" where
  "lit [] s = Some s"
| "lit (p # ps) [] = None"
| "lit (p # ps) (c # cs) = (if c = p then lit ps cs else None)"

text \<open>
  \<open>\s+\<close> and \<open>(\d+)\<close> are greedy. In both patterns the item after such a group
  cannot start with a character of the group's class, so giving characters back never
  helps and the longest run is the only candidate.
\<close>

definition spaces1 :: "jsstring \<Rightarrow> jsstring option" where
  "spaces1 s = (case s of [] \<Rightarrow> None
     | c # cs \<Rightarrow> if is_space c then Some (dropWhile is_space cs) else None)"

definition digits1 :: "jsstring \<Rightarrow> (jsstring \<times> jsstring) option" where
  "digits1 s = (let d = takeWhile is_digit s in
     if d = [] then None else Some (d, dropWhile is_digit s))"

text \<open>\<open>/Processing pages\s+(\d+)\s+through\s+(\d+)\./i\<close> tried at the start of \<open>s\<close>.\<close>

definition match_total_at :: "jsstring \<Rightarrow> (jsstring \<times> jsstring) option" where
  "match_total_at s = do {
     r1 \<leftarrow> lit_ci (str ''Processing pages'') s;
     r2 \<leftarrow> spaces1 r1;
     (d1, r3) \<leftarrow> digits1 r2;
     r4 \<leftarrow> spaces1 r3;
     r5 \<leftarrow> lit_ci (str ''through'') r4;
     r6 \<leftarrow> spaces1 r5;
     (d2, r7) \<leftarrow> digits1 r6;
     r8 \<leftarrow> lit (str ''.'') r7;
     Some (d1, d2)
   }"

text \<open>\<open>line.match\<close> of that pattern: the leftmost position where it matches.\<close>

fun match_total :: "jsstring \<Rightarrow> (jsstring \<times> jsstring) option" where
  "match_total [] = match_total_at []"
| "match_total (c # cs) =
     (case match_total_at (c # cs) of Some m \<Rightarrow> Some m | None \<Rightarrow> match_total cs)"

text \<open>\<open>/^\s*Page\s+(\d+)\s*$/i\<close>: anchored at both ends of the line.\<close>

definition match_page :: "jsstring \<Rightarrow> jsstring option" where
  "match_page s = do {
     r1 \<leftarrow> lit_ci (str ''Page'') (dropWhile is_space s);
     r2 \<leftarrow> spaces1 r1;
     (d, r3) \<leftarrow> digits1 r2;
     if dropWhile is_space r3 = [] then Some d else None
   }"

text \<open>
  \<open>Number\<close> of a string of decimal digits: its value, rounded to the nearest
  binary64 value.
\<close>

definition digit_value :: "jsstring \<Rightarrow> nat" where
  "digit_value ds = foldl (\<lambda>n d. 10 * n + (d - 48)) 0 ds"

definition Number_of :: "jsstring \<Rightarrow> jsnum" where
  "Number_of ds = rnd (of_nat (digit_value ds))"

section \<open>The worker's state and the messages it posts\<close>

type_synonym bytes = "8 word list"

datatype event =
    Status jsstring jsstring jsstring
  | Progress jsstring jsnum jsnum "jsnum option"
  | Result jsstring bytes bool jsstring
  | Error jsstring jsstring

text \<open>
  The module-level variables \<open>activeJobId\<close>, \<open>totalPages\<close> and \<open>currentPage\<close>,
  and the messages given to \<open>self.postMessage\<close> so far, oldest first.
\<close>

record worker =
  activeJobId :: "jsstring option"
  totalPages :: "jsnum option"
  currentPage :: jsnum
  posted :: "event list"

definition postMessage :: "event \<Rightarrow> worker \<Rightarrow> worker" where
  "postMessage ev w = w\<lparr>posted := posted w @ [ev]\<rparr>"

definition postStatus :: "jsstring \<Rightarrow> jsstring \<Rightarrow> jsstring \<Rightarrow> worker \<Rightarrow> worker" where
  "postStatus jobId stage message w = postMessage (Status jobId stage message) w"

definition postProgress :: "jsstring \<Rightarrow> jsnum \<Rightarrow> jsnum \<Rightarrow> jsnum option \<Rightarrow> worker \<Rightarrow> worker" where
  "postProgress jobId percent current tot w = postMessage (Progress jobId percent current tot) w"

section \<open>Progress inferred from the log\<close>

definition percent_of :: "jsnum \<Rightarrow> jsnum option \<Rightarrow> jsnum" where
  "percent_of cur tot =
     (case tot of
        None \<Rightarrow> Fin 0
      | Some t \<Rightarrow>
          if truthy t \<and> js_lt (Fin 0) t
          then let raw = js_floor (js_mul (js_div cur t) (Fin 100))
               in js_min (Fin 99) (js_max (Fin 0) raw)
          else Fin 0)"

definition emitProgress :: "jsstring \<Rightarrow> worker \<Rightarrow> worker" where
  "emitProgress jobId w =
     postProgress jobId (percent_of (currentPage w) (totalPages w)) (currentPage w) (totalPages w) w"

definition parseGsLine :: "jsstring \<Rightarrow> worker \<Rightarrow> worker" where
  "parseGsLine line w =
     (case activeJobId w of
        None \<Rightarrow> w
      | Some j \<Rightarrow>
          if j = [] then w
          else (case match_total line of
            Some (d1, d2) \<Rightarrow>
              let start = Number_of d1; end' = Number_of d2 in
              if isFinite start \<and> isFinite end' \<and> js_le start end'
              then emitProgress j (w\<lparr>totalPages := Some (js_add (js_sub end' start) (Fin 1))\<rparr>)
              else w
          | None \<Rightarrow>
              (case match_page line of
                 Some d \<Rightarrow>
                   let p = Number_of d in
                   if isFinite p \<and> js_lt (currentPage w) p
                   then let w1 = w\<lparr>currentPage := p\<rparr>;
                            w2 = (if totalPages w1 = None \<and> p = Fin 1
                                  then w1\<lparr>totalPages := Some (Fin 1)\<rparr> else w1)
                        in emitProgress j w2
                   else w
               | None \<Rightarrow> w)))"

text \<open>A run of log lines, each given to the parser in turn.\<close>

definition feed :: "jsstring list \<Rightarrow> worker \<Rightarrow> worker" where
  "feed ls w = foldl (\<lambda>v l. parseGsLine l v) w ls"

section \<open>The version sniffer\<close>

text \<open>
  \<open>TextDecoder("ascii", {fatal: false})\<close>: in the Encoding standard the label
  \<open>ascii\<close> names windows-1252, a single-byte encoding that maps each byte below 128
  and from 160 on to the code unit of the same value, and the 32 bytes between by this
  table. No byte from 128 on decodes to an ASCII character, and decoding never fails.
\<close>

definition w1252_high :: "nat list" where
  "w1252_high =
     [8364, 129, 8218, 402, 8222, 8230, 8224, 8225, 710, 8240, 352, 8249, 338, 141, 381, 143,
      144, 8216, 8217, 8220, 8221, 8226, 8211, 8212, 732, 8482, 353, 8250, 339, 157, 382, 376]"

definition decode_ascii :: "8 word \<Rightarrow> nat" where
  "decode_ascii b = (let n = unat b in
     if n < 128 \<or> 160 \<le> n then n else w1252_high ! (n - 128))"

text \<open>\<open>/%PDF-(\d\.\d)/\<close> tried at the start of \<open>s\<close>; the result is the group.\<close>

definition match_version_at :: "jsstring \<Rightarrow> jsstring option" where
  "match_version_at s = do {
     r \<leftarrow> lit (str ''%PDF-'') s;
     (case r of
        d1 # dot # d2 # rest \<Rightarrow>
          if is_digit d1 \<and> dot = 46 \<and> is_digit d2 then Some [d1, dot, d2] else None
      | _ \<Rightarrow> None)
   }"

fun match_version :: "jsstring \<Rightarrow> jsstring option" where
  "match_version [] = match_version_at []"
| "match_version (c # cs) =
     (case match_version_at (c # cs) of Some m \<Rightarrow> Some m | None \<Rightarrow> match_version cs)"

definition detectPdfVersion :: "bytes \<Rightarrow> jsstring option" where
  "detectPdfVersion bs =
     (let head = take (min 1024 (length bs)) bs;
          text = map decode_ascii head
      in match_version text)"

section \<open>Options and the engine's arguments\<close>

datatype preset = Screen | Ebook | Printer | Prepress

fun preset_name :: "preset \<Rightarrow> jsstring" where
  "preset_name Screen = str ''screen''"
| "preset_name Ebook = str ''ebook''"
| "preset_name Printer = str ''printer''"
| "preset_name Prepress = str ''prepress''"

text \<open>Every field of \<open>ShrinkOptions\<close> is optional; \<open>None\<close> is \<open>undefined\<close>.\<close>

record ShrinkOptions =
  grayscale :: "bool option"
  resolutionDpi :: "jsnum option"
  threshold :: "jsnum option"
  pdfSettings :: "preset option"

text \<open>
  \<open>Number.isFinite(v) ? Math.max(lo, v) : dflt\<close>, for a field that may be undefined.
\<close>

definition finite_or :: "jsnum \<Rightarrow> jsnum \<Rightarrow> jsnum option \<Rightarrow> jsnum" where
  "finite_or lo dflt v =
     (case v of None \<Rightarrow> dflt | Some x \<Rightarrow> if isFinite x then js_max lo x else dflt)"

text \<open>The binary64 value of the literal \<open>0.1\<close>.\<close>

definition lit_0_1 :: jsnum where
  "lit_0_1 = Fin (3602879701896397 / 36028797018963968)"

text \<open>
  The argument array of \<open>shrinkPdfLikeScript\<close>, from the options and the version
  already resolved. A number is spliced into a template literal by the language's
  number-to-string conversion, which is the parameter \<open>toStr\<close>.
\<close>

definition gs_args ::
  "(jsnum \<Rightarrow> jsstring) \<Rightarrow> ShrinkOptions \<Rightarrow> jsstring \<Rightarrow> jsstring \<Rightarrow> jsstring
     \<Rightarrow> jsstring list" where
  "gs_args toStr opts pdfVersion inPath outPath =
     (let gray = (case grayscale opts of None \<Rightarrow> False | Some g \<Rightarrow> g);
          res = finite_or (Fin 1) (Fin 72) (resolutionDpi opts);
          thr = finite_or lit_0_1 (Fin (3 / 2)) (threshold opts);
          settings = (case pdfSettings opts of None \<Rightarrow> str ''ebook''
                      | Some s \<Rightarrow> preset_name s);
          args =
            [str ''-dNOPAUSE'',
             str ''-dBATCH'',
             str ''-dSAFER'',
             str ''-sDEVICE=pdfwrite'',
             str ''-dCompatibilityLevel='' @ pdfVersion,
             str ''-dPDFSETTINGS=/'' @ settings,
             str ''-dEmbedAllFonts=true'',
             str ''-dSubsetFonts=true'',
             str ''-dAutoRotatePages=/None'',
             str ''-dColorImageDownsampleType=/Bicubic'',
             str ''-dColorImageResolution='' @ toStr res,
             str ''-dColorImageDownsampleThreshold='' @ toStr thr,
             str ''-dGrayImageDownsampleType=/Bicubic'',
             str ''-dGrayImageResolution='' @ toStr res,
             str ''-dGrayImageDownsampleThreshold='' @ toStr thr,
             str ''-dMonoImageDownsampleType=/Subsample'',
             str ''-dMonoImageResolution='' @ toStr res,
             str ''-dMonoImageDownsampleThreshold='' @ toStr thr,
             str ''-dPreserveAnnots=false'',
             str ''-sOutputFile='' @ outPath];
          args1 = (if gray
                   then args @ [str ''-sProcessColorModel=DeviceGray'',
                                str ''-sColorConversionStrategy=Gray'',
                                str ''-dOverrideICC'']
                   else args)
      in args1 @ [inPath])"

section \<open>The engine\<close>

text \<open>
  A value that is thrown: an \<open>Error\<close> object with its message, or any other value
  with its \<open>String\<close> rendering.
\<close>

datatype thrown = ErrorObject jsstring | OtherValue jsstring

fun message_of :: "thrown \<Rightarrow> jsstring" where
  "message_of (ErrorObject m) = m"
| "message_of (OtherValue s) = s"

text \<open>
  \<open>GSModule\<close> is the compiled Ghostscript module, which is not part of the program.
  It is a parameter: an instance has a private state \<open>'fs\<close> (its virtual file system),
  starting at \<open>fs0\<close>, and every call may change it. \<open>unlink\<close> and \<open>writeFile\<close>
  return normally or throw; \<open>readFile\<close> returns the bytes or throws; \<open>callMain\<close> prints
  lines through the \<open>print\<close> and \<open>printErr\<close> callbacks and then returns or throws.
  Every call comes back: a call that never returns is outside the model.
\<close>

record 'fs GSModule =
  fs0 :: 'fs
  unlink :: "jsstring \<Rightarrow> 'fs \<Rightarrow> thrown option \<times> 'fs"
  writeFile :: "jsstring \<Rightarrow> bytes \<Rightarrow> 'fs \<Rightarrow> thrown option \<times> 'fs"
  callMain :: "jsstring list \<Rightarrow> 'fs \<Rightarrow> jsstring list \<times> thrown option \<times> 'fs"
  readFile :: "jsstring \<Rightarrow> 'fs \<Rightarrow> thrown + bytes"

text \<open>
  What \<open>createFreshGS\<close> does for one job: the lines the module prints while it is
  instantiated, and the module, unless the promise is rejected.
\<close>

record 'fs gs_load =
  boot_lines :: "jsstring list"
  loaded :: "thrown + 'fs GSModule"

section \<open>One job\<close>

record shrink_result =
  out :: bytes
  usedOriginal :: bool
  pdfVersionUsed :: jsstring

text \<open>
  The engine's side of \<open>shrinkPdfLikeScript\<close>, up to \<open>gs.FS.readFile(outPath)\<close>:
  the two \<open>unlink\<close> calls whose exceptions are swallowed, the write of the input, the
  arguments, the run and the read of the output. The module cannot observe the worker
  (the callbacks return nothing), so this part is a function of the module and the
  input alone: it gives the lines printed, and then what was thrown or the engine's
  output with the version.
\<close>

definition engine_run ::
  "(jsnum \<Rightarrow> jsstring) \<Rightarrow> 'fs GSModule \<Rightarrow> bytes \<Rightarrow> ShrinkOptions
     \<Rightarrow> jsstring list \<times> (thrown + bytes \<times> jsstring)" where
  "engine_run toStr gs inputPdf opts =
     (let inPath = str ''/in.pdf'';
          outPath = str ''/out.pdf'';
          fs1 = snd (unlink gs inPath (fs0 gs));
          fs2 = snd (unlink gs outPath fs1)
      in case writeFile gs inPath inputPdf fs2 of
           (Some e, fs3) \<Rightarrow> ([], Inl e)
         | (None, fs3) \<Rightarrow>
             let pdfVersion = (case detectPdfVersion inputPdf of None \<Rightarrow> str ''1.5''
                               | Some v \<Rightarrow> v);
                 args = gs_args toStr opts pdfVersion inPath outPath
             in case callMain gs args fs3 of
                  (printed, Some e, fs4) \<Rightarrow> (printed, Inl e)
                | (printed, None, fs4) \<Rightarrow>
                    (case readFile gs outPath fs4 of
                       Inl e \<Rightarrow> (printed, Inl e)
                     | Inr outb \<Rightarrow> (printed, Inr (outb, pdfVersion))))"

text \<open>
  The whole function: each printed line goes to \<open>parseGsLine\<close>, an exception is
  passed on, and otherwise the output or the input is returned.
\<close>

definition shrinkPdfLikeScript ::
  "(jsnum \<Rightarrow> jsstring) \<Rightarrow> 'fs GSModule \<Rightarrow> bytes \<Rightarrow> ShrinkOptions \<Rightarrow> worker
     \<Rightarrow> (thrown + shrink_result) \<times> worker" where
  "shrinkPdfLikeScript toStr gs inputPdf opts w =
     (case engine_run toStr gs inputPdf opts of
        (printed, Inl e) \<Rightarrow> (Inl e, feed printed w)
      | (printed, Inr (outb, pdfVersion)) \<Rightarrow>
          if length inputPdf < length outb
          then (Inr \<lparr>out = inputPdf, usedOriginal = True, pdfVersionUsed = pdfVersion\<rparr>,
                feed printed w)
          else (Inr \<lparr>out = outb, usedOriginal = False, pdfVersionUsed = pdfVersion\<rparr>,
                feed printed w))"

text \<open>How a promise settles.\<close>

datatype settled = Fulfilled | Rejected thrown

text \<open>
  An asynchronous computation of the worker: run from a worker state, it settles and
  leaves a worker state.
\<close>

type_synonym task = "worker \<Rightarrow> settled \<times> worker"

record CompressMsg =
  msg_type :: jsstring
  jobId :: jsstring
  pdfBuffer :: bytes
  options :: ShrinkOptions

definition reset_progress :: "worker \<Rightarrow> worker" where
  "reset_progress w = w\<lparr>activeJobId := None, totalPages := None, currentPage := Fin 0\<rparr>"

text \<open>
  \<open>handleJob\<close> between the \<open>await\<close> and the \<open>try\<close>: the job becomes the active
  one with fresh progress, and the first progress message is posted.
\<close>

definition start_job :: "jsstring \<Rightarrow> worker \<Rightarrow> worker" where
  "start_job j w =
     (let w3 = postStatus j (str ''ready'') (str ''Ghostscript ready.'') w;
          w4 = w3\<lparr>activeJobId := Some j, totalPages := None, currentPage := Fin 0\<rparr>;
          w5 = emitProgress j w4
      in postStatus j (str ''running'') (str ''Compressing'' @ [8230]) w5)"

text \<open>The body of the \<open>try\<close> after \<open>shrinkPdfLikeScript\<close> has returned.\<close>

definition finish_job :: "jsstring \<Rightarrow> shrink_result \<Rightarrow> worker \<Rightarrow> worker" where
  "finish_job j r w =
     (let w8 = postProgress j (Fin 100)
                 (case totalPages w of None \<Rightarrow> currentPage w | Some t \<Rightarrow> t) (totalPages w) w;
          w9 = postStatus j (str ''done'')
                 (if usedOriginal r then str ''Output larger; returned original.''
                  else str ''Done.'') w8
      in postMessage (Result j (out r) (usedOriginal r) (pdfVersionUsed r)) w9)"

text \<open>
  \<open>handleJob\<close>. A rejection of \<open>createFreshGS\<close> leaves the function before the
  \<open>try\<close>; from there on the \<open>finally\<close> block runs on both ways out.
\<close>

definition handleJob :: "(jsnum \<Rightarrow> jsstring) \<Rightarrow> 'fs gs_load \<Rightarrow> CompressMsg \<Rightarrow> task" where
  "handleJob toStr ld msg w =
     (let j = jobId msg;
          w1 = postStatus j (str ''loading'') (str ''Loading Ghostscript WASM'' @ [8230]) w;
          w2 = feed (boot_lines ld) w1
      in case loaded ld of
           Inl e \<Rightarrow> (Rejected e, w2)
         | Inr gs \<Rightarrow>
             (case shrinkPdfLikeScript toStr gs (pdfBuffer msg) (options msg) (start_job j w2) of
                (Inl e, w7) \<Rightarrow> (Rejected e, reset_progress w7)
              | (Inr r, w7) \<Rightarrow> (Fulfilled, reset_progress (finish_job j r w7))))"

section \<open>The job queue\<close>

text \<open>
  \<open>queue\<close> is a promise. \<open>Promise.resolve()\<close> is fulfilled at once;
  \<open>p.then(f)\<close> runs \<open>f\<close> once \<open>p\<close> is fulfilled and passes a rejection of \<open>p\<close> on;
  \<open>p.catch(h)\<close> runs \<open>h\<close> on the reason once \<open>p\<close> is rejected and is then fulfilled.
\<close>

definition promise_resolve :: task where
  "promise_resolve w = (Fulfilled, w)"

definition then_do :: "task \<Rightarrow> task \<Rightarrow> task" where
  "then_do p f w = (case p w of (Fulfilled, w1) \<Rightarrow> f w1 | (Rejected e, w1) \<Rightarrow> (Rejected e, w1))"

definition catch_do :: "task \<Rightarrow> (thrown \<Rightarrow> worker \<Rightarrow> worker) \<Rightarrow> task" where
  "catch_do p h w = (case p w of (Fulfilled, w1) \<Rightarrow> (Fulfilled, w1) | (Rejected e, w1) \<Rightarrow> (Fulfilled, h e w1))"

text \<open>
  \<open>self.onmessage\<close>: the new value of \<open>queue\<close>. A message is paired with what
  \<open>createFreshGS\<close> will do when its job is run. The handler touches nothing but
  \<open>queue\<close>, and a callback given to \<open>then\<close> runs only after the promise before it
  has settled, so it does not matter whether a message arrives while an earlier job is
  still waiting for its engine: what is posted is what the chain does, link by link.
  \<open>postMessage\<close> itself is taken not to throw.
\<close>

definition onmessage :: "(jsnum \<Rightarrow> jsstring) \<Rightarrow> CompressMsg \<times> 'fs gs_load \<Rightarrow> task \<Rightarrow> task" where
  "onmessage toStr m queue =
     (let msg = fst m in
      if msg_type msg \<noteq> str ''compress'' then queue
      else catch_do (then_do queue (handleJob toStr (snd m) msg))
             (\<lambda>err. postMessage (Error (jobId msg) (message_of err))))"

definition queue_after :: "(jsnum \<Rightarrow> jsstring) \<Rightarrow> (CompressMsg \<times> 'fs gs_load) list \<Rightarrow> task" where
  "queue_after toStr ms = foldl (\<lambda>q m. onmessage toStr m q) promise_resolve ms"

text \<open>The worker as the module is loaded, and after a sequence of messages.\<close>

definition worker0 :: worker where
  "worker0 = \<lparr>activeJobId = None, totalPages = None, currentPage = Fin 0, posted = []\<rparr>"

definition run_worker :: "(jsnum \<Rightarrow> jsstring) \<Rightarrow> (CompressMsg \<times> 'fs gs_load) list \<Rightarrow> worker" where
  "run_worker toStr ms = snd (queue_after toStr ms worker0)"

section \<open>Example inputs\<close>

text \<open>
  An engine for the examples: a file system in memory whose \<open>unlink\<close> and \<open>readFile\<close>
  throw on a missing path, and a run that prints \<open>printed\<close>, throws \<open>exc\<close> if there
  is one, and otherwise leaves \<open>outb\<close> (if any) at \<open>/out.pdf\<close>.
\<close>

definition memfs_gs ::
  "jsstring list \<Rightarrow> thrown option \<Rightarrow> bytes option \<Rightarrow> (jsstring \<rightharpoonup> bytes) GSModule" where
  "memfs_gs printed exc outb =
     \<lparr>fs0 = Map.empty,
      unlink = (\<lambda>p f. if f p = None then (Some (ErrorObject (str ''FS error'')), f)
                       else (None, f(p := None))),
      writeFile = (\<lambda>p b f. (None, f(p \<mapsto> b))),
      callMain = (\<lambda>args f. (printed, exc,
                    (case outb of None \<Rightarrow> f | Some b \<Rightarrow> f(str ''/out.pdf'' \<mapsto> b)))),
      readFile = (\<lambda>p f. case f p of None \<Rightarrow> Inl (ErrorObject (str ''FS error''))
                         | Some b \<Rightarrow> Inr b)\<rparr>"

text \<open>
  A number-to-string conversion for the examples. It is right on the two numbers the
  examples splice into the arguments, the defaults 72 and 1.5.
\<close>

definition demo_toStr :: "jsnum \<Rightarrow> jsstring" where
  "demo_toStr n = (if n = Fin 72 then str ''72'' else if n = Fin (3 / 2) then str ''1.5''
                   else str ''?'')"

definition no_options :: ShrinkOptions where
  "no_options = \<lparr>grayscale = None, resolutionDpi = None, threshold = None, pdfSettings = None\<rparr>"

definition compress_msg :: "jsstring \<Rightarrow> bytes \<Rightarrow> CompressMsg" where
  "compress_msg j b = \<lparr>msg_type = str ''compress'', jobId = j, pdfBuffer = b, options = no_options\<rparr>"

text \<open>The worker while job \<open>j\<close> is running and no line has been read yet.\<close>

definition job_worker :: "jsstring \<Rightarrow> worker" where
  "job_worker j = \<lparr>activeJobId = Some j, totalPages = None, currentPage = Fin 0, posted = []\<rparr>"

text \<open>
  Two jobs: the engine of the first prints \<open>Page 3\<close> and then throws; the engine of
  the second writes one byte of output.
\<close>

definition failing_job :: "CompressMsg \<times> (jsstring \<rightharpoonup> bytes) gs_load" where
  "failing_job =
     (compress_msg (str ''a'') [7, 8],
      \<lparr>boot_lines = [], loaded = Inr (memfs_gs [str ''Page 3''] (Some (ErrorObject (str ''boom''))) None)\<rparr>)"

definition good_job :: "CompressMsg \<times> (jsstring \<rightharpoonup> bytes) gs_load" where
  "good_job =
     (compress_msg (str ''b'') [7, 8],
      \<lparr>boot_lines = [], loaded = Inr (memfs_gs [] None (Some [1]))\<rparr>)"

section \<open>Notions used in the statements\<close>


text \<open>
  The exponent of the unit in the last place of the binary64 values around \<open>a\<close>, and
  the largest finite binary64 value.
\<close>

definition ulp_exp :: "rat \<Rightarrow> int" where
  "ulp_exp a = max (ilog2 a - 52) (- 1074)"

definition max_double :: rat where
  "max_double = pow2 1024 - pow2 971"

text \<open>The percentage a message reports, if it is a progress message.\<close>

fun ev_percent :: "event \<Rightarrow> jsnum option" where
  "ev_percent (Progress j p c t) = Some p"
| "ev_percent e = None"


definition nonneg :: "jsnum \<Rightarrow> bool" where
  "nonneg a = (a = PosInf \<or> (\<exists>r. 0 \<le> r \<and> a = Fin r))"

text \<open>
  The progress state of a running job holds finite numbers only: a current page that is
  not negative and, if the total is known, a total from 1 on.
\<close>

definition progress_fin :: "worker \<Rightarrow> bool" where
  "progress_fin w =
     ((\<exists>c. 0 \<le> c \<and> currentPage w = Fin c) \<and>
      (case totalPages w of None \<Rightarrow> True | Some y \<Rightarrow> \<exists>t. 1 \<le> t \<and> y = Fin t))"



text \<open>The progress variables as the module sets them and as a job leaves them.\<close>

definition clean :: "worker \<Rightarrow> bool" where
  "clean w = (activeJobId w = None \<and> totalPages w = None \<and> currentPage w = Fin 0)"

text \<open>The terminal messages are \<open>result\<close> and \<open>error\<close>; every message names a job.\<close>

fun is_terminal :: "event \<Rightarrow> bool" where
  "is_terminal (Result j b u v) = True"
| "is_terminal (Error j m) = True"
| "is_terminal e = False"

fun ev_job :: "event \<Rightarrow> jsstring" where
  "ev_job (Status j s m) = j"
| "ev_job (Progress j p c t) = j"
| "ev_job (Result j b u v) = j"
| "ev_job (Error j m) = j"

text \<open>A message that \<open>onmessage\<close> does not ignore.\<close>

definition is_compress :: "CompressMsg \<times> 'fs gs_load \<Rightarrow> bool" where
  "is_compress m = (msg_type (fst m) = str ''compress'')"

text \<open>The worker with the messages \<open>p\<close> posted before its own.\<close>

definition shift :: "event list \<Rightarrow> worker \<Rightarrow> worker" where
  "shift p w = w\<lparr>posted := p @ posted w\<rparr>"

text \<open>
  What the queue does for one message once everything before it has settled: the
  link that \<open>onmessage\<close> adds, run from the worker \<open>w\<close>.
\<close>

definition job_link :: "(jsnum \<Rightarrow> jsstring) \<Rightarrow> CompressMsg \<times> 'fs gs_load \<Rightarrow> worker \<Rightarrow> worker" where
  "job_link toStr m w = snd (onmessage toStr m promise_resolve w)"

text \<open>Messages of job \<open>j\<close> none of which is terminal.\<close>

definition quiet :: "jsstring \<Rightarrow> event list \<Rightarrow> bool" where
  "quiet j evs = (\<forall>e\<in>set evs. ev_job e = j \<and> \<not> is_terminal e)"

section \<open>Evaluation\<close>

lemmas rnd_eval = rnd_def rnd_mag_def half_even_def ilog2_def pow2_def bitlen.simps Let_def

lemmas re_eval = str_def match_total_at_def match_page_def spaces1_def digits1_def is_space_def
  is_digit_def canon_def



section \<open>Rounding keeps the sign\<close>

lemma bitlen_pos: "0 < n \<Longrightarrow> 0 < bitlen n"
  by (subst bitlen.simps) simp

lemma bitlen_lower: "0 < n \<Longrightarrow> 2 ^ (bitlen n - 1) \<le> n"
proof (induction n rule: bitlen.induct)
  case (1 n)
  show ?case
  proof (cases "n div 2 = 0")
    case True
    with "1.prems" have "n = 1" by (simp add: div_eq_0_iff) 
    then show ?thesis by (simp add: bitlen.simps)
  next
    case False
    with "1.IH" "1.prems" have ih: "2 ^ (bitlen (n div 2) - 1) \<le> n div 2" by simp
    have pos: "0 < bitlen (n div 2)" using False by (simp add: bitlen_pos)
    have "bitlen n = Suc (bitlen (n div 2))" using "1.prems" by (subst bitlen.simps) simp
    then have "(2::nat) ^ (bitlen n - 1) = 2 * 2 ^ (bitlen (n div 2) - 1)"
      using pos by (cases "bitlen (n div 2)") simp_all
    also have "\<dots> \<le> 2 * (n div 2)" using ih by simp
    also have "\<dots> \<le> n" by simp
    finally show ?thesis .
  qed
qed

lemma pow2_pos: "0 < pow2 k"
  by (simp add: pow2_def)

lemma pow2_le_ilog2:
  assumes "1 \<le> a"
  shows "0 \<le> ilog2 a" and "pow2 (ilog2 a) \<le> a"
proof -
  let ?n = "nat \<lfloor>a\<rfloor>"
  have n: "0 < ?n" using assms by simp
  have e: "ilog2 a = int (bitlen ?n) - 1" using assms by (simp add: ilog2_def)
  from bitlen_pos [OF n] show "0 \<le> ilog2 a" by (simp add: e)
  have "nat (ilog2 a) = bitlen ?n - 1" by (simp add: e)
  then have "pow2 (ilog2 a) = 2 ^ (bitlen ?n - 1)"
    using \<open>0 \<le> ilog2 a\<close> by (simp add: pow2_def)
  also have "\<dots> = of_nat (2 ^ (bitlen ?n - 1))" by simp
  also have "\<dots> \<le> of_nat ?n" using bitlen_lower [OF n] by (simp only: of_nat_le_iff)
  also have "\<dots> = of_int \<lfloor>a\<rfloor>" using assms by simp
  also have "\<dots> \<le> a" by simp
  finally show "pow2 (ilog2 a) \<le> a" .
qed


lemma half_even_bounds: "\<lfloor>x\<rfloor> \<le> half_even x"
  by (simp add: half_even_def Let_def)

lemma rnd_mag_nonneg: "0 \<le> a \<Longrightarrow> 0 \<le> rnd_mag a"
proof -
  assume a: "0 \<le> a"
  let ?u = "max (ilog2 a - 52) (- 1074)"
  have "0 \<le> a / pow2 ?u" using a pow2_pos [of ?u] by simp
  then have "0 \<le> \<lfloor>a / pow2 ?u\<rfloor>" by simp
  with half_even_bounds [of "a / pow2 ?u"] have "0 \<le> half_even (a / pow2 ?u)" by linarith
  then show ?thesis using pow2_pos [of ?u] by (simp add: rnd_mag_def Let_def)
qed


lemma rnd_nonneg: "0 \<le> q \<Longrightarrow> rnd q = PosInf \<or> (\<exists>r. 0 \<le> r \<and> rnd q = Fin r)"
  using rnd_mag_nonneg [of q] by (auto simp: rnd_def Let_def)


section \<open>Rounding is close\<close>

lemma pow2_powi: "pow2 k = 2 powi k"
  by (simp add: pow2_def power_int_def inverse_eq_divide power_one_over)

lemma pow2_add: "pow2 (i + j) = pow2 i * pow2 j"
  by (simp add: pow2_powi power_int_add)

lemma pow2_mono: "i \<le> j \<Longrightarrow> pow2 i \<le> pow2 j"
  by (simp add: pow2_powi power_int_increasing)

lemma pow2_less_imp: "pow2 i < pow2 j \<Longrightarrow> i < j"
proof (rule ccontr)
  assume a: "pow2 i < pow2 j" and "\<not> i < j"
  then have "j \<le> i" by simp
  from pow2_mono [OF this] a show False by simp
qed

lemma pow2_nat: "0 \<le> k \<Longrightarrow> pow2 k = 2 ^ nat k"
  by (simp add: pow2_def)

lemma bitlen_upper: "n < 2 ^ bitlen n"
proof (induction n rule: bitlen.induct)
  case (1 n)
  show ?case
  proof (cases "n = 0")
    case True
    then show ?thesis by (simp add: bitlen.simps)
  next
    case False
    with "1.IH" have ih: "n div 2 < 2 ^ bitlen (n div 2)" by simp
    have "bitlen n = Suc (bitlen (n div 2))" using False by (subst bitlen.simps) simp
    moreover have "n < 2 * (n div 2 + 1)" by simp
    moreover from ih have "n div 2 + 1 \<le> 2 ^ bitlen (n div 2)" by simp
    ultimately show ?thesis by simp
  qed
qed

text \<open>The exponent found is the right one.\<close>

lemma ilog2_small:
  assumes "0 < a" "\<not> 1 \<le> a"
  obtains k where "ilog2 a = - int k" "0 < k" "1 / 2 ^ k \<le> a" "a < 1 / 2 ^ (k - 1)"
proof -
  define n where "n = nat (\<lceil>1 / a\<rceil> - 1)"
  define k where "k = bitlen n"
  have e: "ilog2 a = - int k" using assms(2) by (simp add: ilog2_def n_def k_def)
  have "1 < 1 / a" using assms by simp
  then have c: "1 < \<lceil>1 / a\<rceil>" by (simp add: less_ceiling_iff)
  then have nn: "0 \<le> \<lceil>1 / a\<rceil> - 1" by linarith
  have n_int: "int n = \<lceil>1 / a\<rceil> - 1" using nn by (simp add: n_def)
  with c have n: "0 < n" by linarith
  from bitlen_pos [OF n] have k: "0 < k" by (simp add: k_def)
  have n_rat: "(of_nat n :: rat) = of_int \<lceil>1 / a\<rceil> - 1"
  proof -
    have "(of_nat n :: rat) = of_int (int n)" by simp
    also have "\<dots> = of_int (\<lceil>1 / a\<rceil> - 1)" by (simp only: n_int)
    finally show ?thesis by simp
  qed
  have up: "(of_nat n :: rat) + 1 \<le> 2 ^ k"
  proof -
    from bitlen_upper [of n] have "n + 1 \<le> 2 ^ k" by (simp add: k_def)
    then have "(of_nat (n + 1) :: rat) \<le> of_nat (2 ^ k)" by (simp only: of_nat_le_iff)
    then show ?thesis by simp
  qed
  have lo: "(2::rat) ^ (k - 1) \<le> of_nat n"
  proof -
    from bitlen_lower [OF n] have "2 ^ (k - 1) \<le> n" by (simp add: k_def)
    then have "(of_nat (2 ^ (k - 1)) :: rat) \<le> of_nat n" by (simp only: of_nat_le_iff)
    then show ?thesis by simp
  qed
  have "1 / a \<le> of_int \<lceil>1 / a\<rceil>" by (rule le_of_int_ceiling)
  with up n_rat have "1 / a \<le> 2 ^ k" by linarith
  then have "1 \<le> 2 ^ k * a" using assms(1) by (simp add: divide_le_eq)
  then have b1: "1 / 2 ^ k \<le> a" by (simp add: divide_le_eq mult.commute)
  have "of_int \<lceil>1 / a\<rceil> - 1 < 1 / a"
    using ceiling_correct [of "1 / a"] by linarith
  with lo n_rat have "2 ^ (k - 1) < 1 / a" by linarith
  then have "2 ^ (k - 1) * a < 1" using assms(1) by (simp add: less_divide_eq)
  then have b2: "a < 1 / 2 ^ (k - 1)" by (simp add: less_divide_eq mult.commute)
  from e k b1 b2 show ?thesis by (rule that)
qed

lemma ilog2_large:
  assumes "1 \<le> a"
  obtains k where "ilog2 a = int k - 1" "0 < k" "2 ^ (k - 1) \<le> a" "a < 2 ^ k"
proof -
  define n where "n = nat \<lfloor>a\<rfloor>"
  define k where "k = bitlen n"
  have e: "ilog2 a = int k - 1" using assms by (simp add: ilog2_def n_def k_def)
  have fl: "1 \<le> \<lfloor>a\<rfloor>" using assms by simp
  then have n_int: "int n = \<lfloor>a\<rfloor>" by (simp add: n_def)
  with fl have n: "0 < n" by linarith
  from bitlen_pos [OF n] have k: "0 < k" by (simp add: k_def)
  have n_rat: "(of_nat n :: rat) = of_int \<lfloor>a\<rfloor>"
  proof -
    have "(of_nat n :: rat) = of_int (int n)" by simp
    also have "\<dots> = of_int \<lfloor>a\<rfloor>" by (simp only: n_int)
    finally show ?thesis .
  qed
  have up: "(of_nat n :: rat) + 1 \<le> 2 ^ k"
  proof -
    from bitlen_upper [of n] have "n + 1 \<le> 2 ^ k" by (simp add: k_def)
    then have "(of_nat (n + 1) :: rat) \<le> of_nat (2 ^ k)" by (simp only: of_nat_le_iff)
    then show ?thesis by simp
  qed
  have lo: "(2::rat) ^ (k - 1) \<le> of_nat n"
  proof -
    from bitlen_lower [OF n] have "2 ^ (k - 1) \<le> n" by (simp add: k_def)
    then have "(of_nat (2 ^ (k - 1)) :: rat) \<le> of_nat n" by (simp only: of_nat_le_iff)
    then show ?thesis by simp
  qed
  have f: "of_int \<lfloor>a\<rfloor> \<le> a" "a < of_int \<lfloor>a\<rfloor> + 1" by linarith+
  from lo n_rat f have b1: "2 ^ (k - 1) \<le> a" by linarith
  from up n_rat f have b2: "a < 2 ^ k" by linarith
  from e k b1 b2 show ?thesis by (rule that)
qed

text \<open>The exponent found is the right one.\<close>

lemma ilog2_bounds:
  assumes "0 < a"
  shows "pow2 (ilog2 a) \<le> a" and "a < pow2 (ilog2 a + 1)"
proof -
  have "pow2 (ilog2 a) \<le> a \<and> a < pow2 (ilog2 a + 1)"
  proof (cases "1 \<le> a")
    case True
    from ilog2_large [OF True] obtain k where
      k: "ilog2 a = int k - 1" "0 < k" "2 ^ (k - 1) \<le> a" "a < 2 ^ k" by blast
    have "nat (int k - 1) = k - 1" by simp
    with k(2) have "pow2 (ilog2 a) = 2 ^ (k - 1)" "pow2 (ilog2 a + 1) = 2 ^ k"
      by (simp_all add: k(1) pow2_def)
    with k show ?thesis by simp
  next
    case False
    from ilog2_small [OF assms False] obtain k where
      k: "ilog2 a = - int k" "0 < k" "1 / 2 ^ k \<le> a" "a < 1 / 2 ^ (k - 1)" by blast
    have p1: "pow2 (ilog2 a) = 1 / 2 ^ k" using k(2) by (simp add: k(1) pow2_def)
    have p2: "pow2 (ilog2 a + 1) = 1 / 2 ^ (k - 1)"
    proof (cases "k = 1")
      case True
      then show ?thesis by (simp add: k(1) pow2_def)
    next
      case False
      with k(2) have "\<not> 0 \<le> - int k + 1" "nat (- (- int k + 1)) = k - 1" by simp_all
      then show ?thesis by (simp add: k(1) pow2_def)
    qed
    from k p1 p2 show ?thesis by simp
  qed
  then show "pow2 (ilog2 a) \<le> a" and "a < pow2 (ilog2 a + 1)" by simp_all
qed

lemma half_even_near: "\<bar>of_int (half_even x) - x\<bar> \<le> 1 / 2"
proof -
  have "of_int \<lfloor>x\<rfloor> \<le> x" "x < of_int \<lfloor>x\<rfloor> + 1" by linarith+
  then show ?thesis by (auto simp: half_even_def Let_def abs_le_iff)
qed

lemma rnd_mag_ulp: "rnd_mag a = of_int (half_even (a / pow2 (ulp_exp a))) * pow2 (ulp_exp a)"
  by (simp add: rnd_mag_def ulp_exp_def Let_def)

text \<open>Rounding moves a value by at most half a unit in the last place.\<close>

lemma rnd_mag_near: "\<bar>rnd_mag a - a\<bar> \<le> pow2 (ulp_exp a) / 2"
proof -
  let ?p = "pow2 (ulp_exp a)"
  have p: "0 < ?p" by (rule pow2_pos)
  have "rnd_mag a - a = (of_int (half_even (a / ?p)) - a / ?p) * ?p"
    using p by (simp add: rnd_mag_ulp algebra_simps)
  then have "\<bar>rnd_mag a - a\<bar> = \<bar>of_int (half_even (a / ?p)) - a / ?p\<bar> * ?p"
    using p by (simp add: abs_mult)
  also have "\<dots> \<le> 1 / 2 * ?p"
    using half_even_near [of "a / ?p"] p by (intro mult_right_mono) simp_all
  finally show ?thesis by simp
qed

lemma ulp_le:
  assumes "0 < a"
  shows "pow2 (ulp_exp a) \<le> a * pow2 (- 52) + pow2 (- 1074)"
proof (cases "ilog2 a - 52 \<le> - 1074")
  case True
  then have "ulp_exp a = - 1074" by (simp add: ulp_exp_def)
  moreover have "0 \<le> a * pow2 (- 52)" using assms pow2_pos [of "- 52"] by simp
  ultimately show ?thesis by simp
next
  case False
  then have "ulp_exp a = ilog2 a + (- 52)" by (simp add: ulp_exp_def)
  then have "pow2 (ulp_exp a) = pow2 (ilog2 a) * pow2 (- 52)" by (simp only: pow2_add)
  also have "\<dots> \<le> a * pow2 (- 52)"
    using ilog2_bounds(1) [OF assms] pow2_pos [of "- 52"] by (intro mult_right_mono) simp_all
  finally show ?thesis using pow2_pos [of "- 1074"] by linarith
qed

lemma pow2_half: "pow2 k / 2 = pow2 (k - 1)"
proof -
  have "pow2 k = pow2 ((k - 1) + 1)" by simp
  also have "\<dots> = pow2 (k - 1) * pow2 1" by (simp only: pow2_add)
  finally show ?thesis by (simp add: pow2_def)
qed

text \<open>
  The error of binary64 rounding: relative \<open>2^-53\<close>, or \<open>2^-1075\<close> in the subnormal
  range.
\<close>

lemma rnd_mag_error:
  assumes "0 < a"
  shows "\<bar>rnd_mag a - a\<bar> \<le> a * pow2 (- 53) + pow2 (- 1075)"
proof -
  have "\<bar>rnd_mag a - a\<bar> \<le> pow2 (ulp_exp a) / 2" by (rule rnd_mag_near)
  also have "\<dots> \<le> (a * pow2 (- 52) + pow2 (- 1074)) / 2"
    using ulp_le [OF assms] by simp
  also have "\<dots> = a * (pow2 (- 52) / 2) + pow2 (- 1074) / 2" by (simp add: field_simps)
  also have "\<dots> = a * pow2 (- 53) + pow2 (- 1075)" by (simp only: pow2_half) simp
  finally show ?thesis .
qed

lemma pow2_small: "pow2 (- 53) \<le> 1 / 1000" "pow2 (- 1075) \<le> 1 / 1000"
proof -
  show a: "pow2 (- 53) \<le> 1 / 1000" by (simp add: pow2_def)
  have "pow2 (- 1075) \<le> pow2 (- 53)" by (rule pow2_mono) simp
  with a show "pow2 (- 1075) \<le> 1 / 1000" by simp
qed

lemma rnd_mag_rough:
  assumes "0 < a"
  shows "\<bar>rnd_mag a - a\<bar> \<le> a / 1000 + 1 / 1000"
proof -
  have "a * pow2 (- 53) \<le> a * (1 / 1000)"
    using assms pow2_small(1) by (intro mult_left_mono) simp_all
  with rnd_mag_error [OF assms] pow2_small(2) show ?thesis by simp
qed

lemma rnd_Fin_rough:
  assumes "0 \<le> a" "rnd a = Fin r"
  shows "\<bar>r - a\<bar> \<le> a / 1000 + 1 / 1000" and "0 \<le> r"
proof -
  show "\<bar>r - a\<bar> \<le> a / 1000 + 1 / 1000"
  proof (cases "a = 0")
    case True
    with assms(2) show ?thesis by (simp add: rnd_def)
  next
    case False
    with assms(1) have pos: "0 < a" by simp
    with assms(2) have "r = rnd_mag a" by (simp add: rnd_def Let_def split: if_splits)
    with rnd_mag_rough [OF pos] show ?thesis by simp
  qed
  from rnd_nonneg [OF assms(1)] assms(2) show "0 \<le> r" by auto
qed


section \<open>Finite values\<close>

lemma pow2_double: "pow2 (k + 1) = 2 * pow2 k"
  using pow2_add [of k 1] by (simp add: pow2_def)

lemma pow2_ge_2: "1 \<le> k \<Longrightarrow> 2 \<le> pow2 k"
proof -
  assume "1 \<le> k"
  from pow2_mono [OF this] show ?thesis by (simp add: pow2_def)
qed

lemma rnd_pos_cases:
  "0 < a \<Longrightarrow> rnd a = (if pow2 1024 \<le> rnd_mag a then PosInf else Fin (rnd_mag a))"
  by (simp add: rnd_def Let_def pow2_def)

text \<open>Rounding never goes below the power of two under the value.\<close>

lemma rnd_mag_ge_pow2:
  assumes "0 < a" "- 1074 \<le> ilog2 a"
  shows "pow2 (ilog2 a) \<le> rnd_mag a"
proof -
  let ?e = "ilog2 a" and ?u = "ulp_exp a"
  have ue: "?u \<le> ?e" using assms(2) by (simp add: ulp_exp_def)
  define d where "d = nat (?e - ?u)"
  have "?e = ?u + int d" using ue by (simp add: d_def)
  then have "pow2 ?e = pow2 ?u * pow2 (int d)" by (simp only: pow2_add)
  then have pe: "pow2 ?e = pow2 ?u * 2 ^ d" by (simp add: pow2_def)
  have p: "0 < pow2 ?u" by (rule pow2_pos)
  from ilog2_bounds(1) [OF assms(1)] pe have "pow2 ?u * 2 ^ d \<le> a" by simp
  then have "2 ^ d \<le> a / pow2 ?u" using p by (simp add: le_divide_eq mult.commute)
  then have "of_int (2 ^ d) \<le> a / pow2 ?u" by simp
  then have "2 ^ d \<le> \<lfloor>a / pow2 ?u\<rfloor>" by (simp only: le_floor_iff)
  with half_even_bounds [of "a / pow2 ?u"] have "2 ^ d \<le> half_even (a / pow2 ?u)" by linarith
  then have "(of_int (2 ^ d) :: rat) \<le> of_int (half_even (a / pow2 ?u))"
    by (simp only: of_int_le_iff)
  then have "2 ^ d * pow2 ?u \<le> of_int (half_even (a / pow2 ?u)) * pow2 ?u"
    using p by (intro mult_right_mono) simp_all
  then show ?thesis by (simp add: pe rnd_mag_ulp mult.commute)
qed

lemma rnd_mag_ge_1:
  assumes "1 \<le> a"
  shows "1 \<le> rnd_mag a"
proof -
  from pow2_le_ilog2 [OF assms] have e: "0 \<le> ilog2 a" by simp
  then have "pow2 0 \<le> pow2 (ilog2 a)" by (rule pow2_mono)
  moreover have "pow2 (ilog2 a) \<le> rnd_mag a"
    by (rule rnd_mag_ge_pow2) (use assms e in simp_all)
  ultimately show ?thesis by (simp add: pow2_def)
qed

text \<open>No finite binary64 value is above the largest one.\<close>

lemma rnd_mag_le_max:
  assumes "0 < a" "rnd_mag a < pow2 1024"
  shows "rnd_mag a \<le> max_double"
proof -
  let ?e = "ilog2 a" and ?u = "ulp_exp a"
  consider "1024 \<le> ?e" | "?e = 1023" | "?e \<le> 1022" by linarith
  then show ?thesis
  proof cases
    case 1
    then have "pow2 1024 \<le> pow2 ?e" by (rule pow2_mono)
    moreover have "pow2 ?e \<le> rnd_mag a" by (rule rnd_mag_ge_pow2) (use assms 1 in simp_all)
    ultimately show ?thesis using assms(2) by simp
  next
    case 2
    then have u: "?u = 971" by (simp add: ulp_exp_def)
    define m where "m = half_even (a / pow2 971)"
    have r: "rnd_mag a = of_int m * pow2 971" by (simp add: rnd_mag_ulp u m_def)
    have "pow2 1024 = pow2 (53 + 971)" by simp
    also have "\<dots> = pow2 53 * pow2 971" by (simp only: pow2_add)
    finally have p: "pow2 1024 = 2 ^ 53 * pow2 971" by (simp add: pow2_def)
    from assms(2) r p have "of_int m * pow2 971 < 2 ^ 53 * pow2 971" by simp
    then have "(of_int m :: rat) < 2 ^ 53" using pow2_pos [of 971] by (simp only: mult_less_cancel_right_pos)
    then have "(of_int m :: rat) < of_int (2 ^ 53)" by simp
    then have "m < 2 ^ 53" by (simp only: of_int_less_iff)
    then have "m \<le> 2 ^ 53 - 1" by simp
    then have "(of_int m :: rat) \<le> of_int (2 ^ 53 - 1)" by (simp only: of_int_le_iff)
    then have "of_int m * pow2 971 \<le> of_int (2 ^ 53 - 1) * pow2 971"
      using pow2_pos [of 971] by (intro mult_right_mono) simp_all
    also have "\<dots> = 2 ^ 53 * pow2 971 - pow2 971" by (simp add: algebra_simps)
    finally show ?thesis by (simp add: r p max_double_def)
  next
    case 3
    then have "?e + 1 \<le> 1023" by simp
    then have "pow2 (?e + 1) \<le> pow2 1023" by (rule pow2_mono)
    with ilog2_bounds(2) [OF assms(1)] have a: "a < pow2 1023" by simp
    have "?u \<le> 970" using 3 by (simp add: ulp_exp_def)
    then have "pow2 ?u \<le> pow2 970" by (rule pow2_mono)
    with rnd_mag_near [of a] have "rnd_mag a \<le> a + pow2 970 / 2" by linarith
    with a have "rnd_mag a < pow2 1023 + pow2 970 / 2" by simp
    moreover have "pow2 1024 = 2 * pow2 1023" using pow2_double [of 1023] by simp
    moreover have "pow2 970 \<le> pow2 1022" "pow2 971 \<le> pow2 1022" by (rule pow2_mono, simp)+
    moreover have "pow2 1023 = 2 * pow2 1022" using pow2_double [of 1022] by simp
    moreover have "0 < pow2 970" by (rule pow2_pos)
    ultimately show ?thesis by (simp add: max_double_def)
  qed
qed

lemma rnd_Fin_le_max:
  assumes "0 \<le> a" "rnd a = Fin r"
  shows "r \<le> max_double"
proof (cases "a = 0")
  case True
  have "pow2 971 \<le> pow2 1024" by (rule pow2_mono) simp
  with True assms(2) show ?thesis by (simp add: rnd_def max_double_def)
next
  case False
  with assms(1) have pos: "0 < a" by simp
  from assms(2) rnd_pos_cases [OF pos] have "rnd_mag a < pow2 1024" "r = rnd_mag a"
    by (simp_all split: if_splits)
  with rnd_mag_le_max [OF pos] show ?thesis by simp
qed

text \<open>A value up to one above the largest binary64 value rounds to a finite one.\<close>

lemma rnd_finite:
  assumes "0 \<le> a" "a \<le> max_double + 1"
  shows "\<exists>r. rnd a = Fin r"
proof (cases "a = 0")
  case True
  then show ?thesis by (simp add: rnd_def)
next
  case False
  with assms(1) have pos: "0 < a" by simp
  let ?e = "ilog2 a" and ?u = "ulp_exp a"
  have p970: "2 \<le> pow2 970" by (rule pow2_ge_2) simp
  have p971: "pow2 971 = 2 * pow2 970" using pow2_double [of 970] by simp
  have p1024: "pow2 971 \<le> pow2 1024" by (rule pow2_mono) simp
  from assms(2) p970 p971 have "a < pow2 1024" by (simp add: max_double_def)
  with ilog2_bounds(1) [OF pos] have "pow2 ?e < pow2 1024" by simp
  then have "?e < 1024" by (rule pow2_less_imp)
  then have "?u \<le> 971" by (simp add: ulp_exp_def)
  then have "pow2 ?u \<le> pow2 971" by (rule pow2_mono)
  with rnd_mag_near [of a] have "rnd_mag a \<le> a + pow2 971 / 2" by linarith
  with assms(2) p970 p971 have "rnd_mag a < pow2 1024" by (simp add: max_double_def)
  with rnd_pos_cases [OF pos] show ?thesis by simp
qed

text \<open>The total that a \<open>Processing pages\<close> line sets is a finite number from 1 on.\<close>

lemma total_finite:
  assumes "0 \<le> s" "s \<le> e" "e \<le> max_double"
  shows "\<exists>t. js_add (js_sub (Fin e) (Fin s)) (Fin 1) = Fin t \<and> 1 \<le> t"
proof -
  have d: "0 \<le> e - s" "e - s \<le> max_double + 1" using assms by simp_all
  from rnd_finite [OF d] obtain r where r: "rnd (e - s) = Fin r" ..
  from rnd_Fin_rough(2) [OF d(1) r] rnd_Fin_le_max [OF d(1) r]
  have r1: "1 \<le> r + 1" "0 \<le> r + 1" "r + 1 \<le> max_double + 1" by simp_all
  from rnd_finite [OF r1(2,3)] obtain t where t: "rnd (r + 1) = Fin t" ..
  have "0 < r + 1" using r1(1) by simp
  from rnd_pos_cases [OF this] t have "t = rnd_mag (r + 1)" by (simp split: if_splits)
  with rnd_mag_ge_1 [OF r1(1)] have "1 \<le> t" by simp
  with r t show ?thesis by (simp add: js_sub_def)
qed

section \<open>The percentage is between 0 and 99\<close>

lemma nonneg_rnd: "0 \<le> q \<Longrightarrow> nonneg (rnd q)"
  using rnd_nonneg [of q] by (simp add: nonneg_def)

lemma nonneg_Number_of: "nonneg (Number_of ds)"
  by (simp add: Number_of_def nonneg_rnd)







lemma parseGsLine_cases:
  obtains (same) "parseGsLine l w = w"
  | (total) j s e where "activeJobId w = Some j" "j \<noteq> []" "js_le (Fin s) (Fin e)"
      "parseGsLine l w =
         emitProgress j (w\<lparr>totalPages := Some (js_add (js_sub (Fin e) (Fin s)) (Fin 1))\<rparr>)"
      "0 \<le> s" "e \<le> max_double"
  | (page) j p where "activeJobId w = Some j" "j \<noteq> []" "js_lt (currentPage w) (Fin p)" "0 \<le> p"
      "parseGsLine l w =
         emitProgress j (if totalPages w = None \<and> p = 1
                         then w\<lparr>currentPage := Fin p, totalPages := Some (Fin 1)\<rparr>
                         else w\<lparr>currentPage := Fin p\<rparr>)"
proof (cases "activeJobId w")
  case None
  then show ?thesis using same by (simp add: parseGsLine_def)
next
  case (Some j)
  show ?thesis
  proof (cases "j = []")
    case True
    with Some show ?thesis using same by (simp add: parseGsLine_def)
  next
    case False
    show ?thesis
    proof (cases "match_total l")
      case (Some m)
      obtain d1 d2 where m: "m = (d1, d2)" by (cases m)
      show ?thesis
      proof (cases "isFinite (Number_of d1) \<and> isFinite (Number_of d2) \<and>
                    js_le (Number_of d1) (Number_of d2)")
        case True
        then obtain s e where se: "Number_of d1 = Fin s" "Number_of d2 = Fin e"
          by (cases "Number_of d1"; cases "Number_of d2") auto
        with True have "js_le (Fin s) (Fin e)" by simp
        moreover have "parseGsLine l w =
           emitProgress j (w\<lparr>totalPages := Some (js_add (js_sub (Fin e) (Fin s)) (Fin 1))\<rparr>)"
          using \<open>activeJobId w = Some j\<close> False Some m True se
          by (simp add: parseGsLine_def Let_def)
        moreover have "0 \<le> s" using nonneg_Number_of [of d1] se(1) by (simp add: nonneg_def)
        moreover have "e \<le> max_double"
          using rnd_Fin_le_max [of "of_nat (digit_value d2)" e] se(2) by (simp add: Number_of_def)
        ultimately show ?thesis using total \<open>activeJobId w = Some j\<close> False by blast
      next
        case no: False
        have "parseGsLine l w = w"
          using \<open>activeJobId w = Some j\<close> False Some m no
          by (auto simp add: parseGsLine_def Let_def)
        then show ?thesis using same by blast
      qed
    next
      case None
      show ?thesis
      proof (cases "match_page l")
        case nop: None
        have "parseGsLine l w = w"
          using \<open>activeJobId w = Some j\<close> False None nop by (simp add: parseGsLine_def)
        then show ?thesis using same by blast
      next
        case (Some d)
        show ?thesis
        proof (cases "isFinite (Number_of d) \<and> js_lt (currentPage w) (Number_of d)")
          case True
          then obtain p where p: "Number_of d = Fin p" by (cases "Number_of d") auto
          with nonneg_Number_of [of d] have "0 \<le> p" by (simp add: nonneg_def)
          moreover have "js_lt (currentPage w) (Fin p)" using True p by simp
          moreover have "parseGsLine l w =
             emitProgress j (if totalPages w = None \<and> p = 1
                         then w\<lparr>currentPage := Fin p, totalPages := Some (Fin 1)\<rparr>
                         else w\<lparr>currentPage := Fin p\<rparr>)"
            using \<open>activeJobId w = Some j\<close> False None Some True p
            by (simp add: parseGsLine_def Let_def)
          ultimately show ?thesis using page \<open>activeJobId w = Some j\<close> False by blast
        next
          case no: False
          have "parseGsLine l w = w"
            using \<open>activeJobId w = Some j\<close> False None Some no
            by (auto simp add: parseGsLine_def Let_def)
          then show ?thesis using same by blast
        qed
      qed
    qed
  qed
qed

section \<open>The parser, line by line\<close>

lemma emitProgress_fields [simp]:
  "activeJobId (emitProgress j w) = activeJobId w"
  "currentPage (emitProgress j w) = currentPage w"
  "totalPages (emitProgress j w) = totalPages w"
  "posted (emitProgress j w) =
     posted w @ [Progress j (percent_of (currentPage w) (totalPages w)) (currentPage w) (totalPages w)]"
  by (simp_all add: emitProgress_def postProgress_def postMessage_def)

lemma feed_Nil [simp]: "feed [] w = w"
  by (simp add: feed_def)

lemma feed_Cons [simp]: "feed (l # ls) w = feed ls (parseGsLine l w)"
  by (simp add: feed_def)


lemma parseGsLine_active [simp]: "activeJobId (parseGsLine l w) = activeJobId w"
  by (rule parseGsLine_cases [of l w]) auto

lemma feed_active [simp]: "activeJobId (feed ls w) = activeJobId w"
  by (induction ls arbitrary: w) simp_all




text \<open>
  What the parser posts: nothing, or one progress message for the active job that
  reports the new state.
\<close>

lemma parseGsLine_posted:
  "posted (parseGsLine l w) = posted w \<or>
   (\<exists>j. activeJobId w = Some j \<and>
     posted (parseGsLine l w) = posted w @
       [Progress j (percent_of (currentPage (parseGsLine l w)) (totalPages (parseGsLine l w)))
          (currentPage (parseGsLine l w)) (totalPages (parseGsLine l w))])"
  by (rule parseGsLine_cases [of l w]) auto

lemma progress_fin_parse: "progress_fin w \<Longrightarrow> progress_fin (parseGsLine l w)"
proof (rule parseGsLine_cases [of l w])
  assume "progress_fin w" "parseGsLine l w = w"
  then show ?thesis by simp
next
  fix j s e
  assume ok: "progress_fin w" and le: "js_le (Fin s) (Fin e)"
    and eq: "parseGsLine l w =
         emitProgress j (w\<lparr>totalPages := Some (js_add (js_sub (Fin e) (Fin s)) (Fin 1))\<rparr>)"
    and s: "0 \<le> s" and e: "e \<le> max_double"
  from le have "s \<le> e" by (auto simp: js_le_def)
  from total_finite [OF s this e] obtain t where
    "js_add (js_sub (Fin e) (Fin s)) (Fin 1) = Fin t" "1 \<le> t" by blast
  with ok show ?thesis by (simp add: eq progress_fin_def)
next
  fix j p
  assume ok: "progress_fin w" and p: "0 \<le> p"
    and eq: "parseGsLine l w =
         emitProgress j (if totalPages w = None \<and> p = 1
                         then w\<lparr>currentPage := Fin p, totalPages := Some (Fin 1)\<rparr>
                         else w\<lparr>currentPage := Fin p\<rparr>)"
  from ok p show ?thesis by (auto simp add: eq progress_fin_def)
qed

lemma progress_fin_feed: "progress_fin w \<Longrightarrow> progress_fin (feed ls w)"
  by (induction ls arbitrary: w) (simp_all add: progress_fin_parse)















lemma match_total_3_12: "match_total (str ''Processing pages 3 through 12.'') = Some (str ''3'', str ''12'')"
  by (simp add: re_eval)

lemma match_total_page_5: "match_total (str ''Page 5'') = None"
  by (simp add: re_eval)

lemma match_page_5: "match_page (str ''Page 5'') = Some (str ''5'')"
  by (simp add: re_eval)

lemma total_3_12: "js_add (js_sub (Fin 12) (Fin 3)) (Fin 1) = Fin 10"
  by (simp add: js_sub_def rnd_eval)

lemma percent_0_of_10: "percent_of (Fin 0) (Some (Fin 10)) = Fin 0"
  by (simp add: percent_of_def truthy_def js_min_def js_max_def rnd_eval)

lemma percent_5_of_10: "percent_of (Fin 5) (Some (Fin 10)) = Fin 50"
  by (simp add: percent_of_def truthy_def js_min_def js_max_def rnd_eval)


lemma feed_two_lines:
  "j \<noteq> [] \<Longrightarrow> feed [str ''Processing pages 3 through 12.'', str ''Page 5''] (job_worker j) =
     \<lparr>activeJobId = Some j, totalPages = Some (Fin 10), currentPage = Fin 5,
      posted = [Progress j (Fin 0) (Fin 0) (Some (Fin 10)), Progress j (Fin 50) (Fin 5) (Some (Fin 10))]\<rparr>"
proof -
  have n: "Number_of (str ''3'') = Fin 3" "Number_of (str ''12'') = Fin 12" "Number_of (str ''5'') = Fin 5"
    by (simp_all add: Number_of_def digit_value_def str_def rnd_eval)
  assume "j \<noteq> []"
  then show ?thesis
    by (simp add: parseGsLine_def match_total_3_12 match_total_page_5 match_page_5 n total_3_12 percent_0_of_10 percent_5_of_10 js_le_def job_worker_def emitProgress_def
        postProgress_def postMessage_def Let_def)
qed

section \<open>The version pattern\<close>






lemma take_take_min: "take (min 1024 (length (take 1024 bs))) (take 1024 bs) = take (min 1024 (length bs)) bs"
  by (simp add: min_def)

section \<open>The example engine\<close>

lemma engine_run_memfs:
  "engine_run toStr (memfs_gs printed None (Some outb)) input opts =
     (printed, Inr (outb, case detectPdfVersion input of None \<Rightarrow> str ''1.5'' | Some v \<Rightarrow> v))"
  by (simp add: engine_run_def memfs_gs_def Let_def)

lemma detect_two_bytes: "detectPdfVersion [7, 8] = None"
  by (simp add: detectPdfVersion_def str_def match_version_at_def)

section \<open>Messages already posted do not matter\<close>

lemma shift_fields [simp]:
  "activeJobId (shift p w) = activeJobId w"
  "totalPages (shift p w) = totalPages w"
  "currentPage (shift p w) = currentPage w"
  "posted (shift p w) = p @ posted w"
  by (simp_all add: shift_def)

lemma postMessage_shift: "postMessage ev (shift p w) = shift p (postMessage ev w)"
  by (simp add: postMessage_def shift_def)

lemma postStatus_shift: "postStatus j s m (shift p w) = shift p (postStatus j s m w)"
  by (simp add: postStatus_def postMessage_shift)

lemma postProgress_shift: "postProgress j a b c (shift p w) = shift p (postProgress j a b c w)"
  by (simp add: postProgress_def postMessage_shift)

lemma emitProgress_shift: "emitProgress j (shift p w) = shift p (emitProgress j w)"
  by (simp add: emitProgress_def postProgress_shift)

lemma shift_update:
  "(shift p w)\<lparr>totalPages := t\<rparr> = shift p (w\<lparr>totalPages := t\<rparr>)"
  "(shift p w)\<lparr>currentPage := c\<rparr> = shift p (w\<lparr>currentPage := c\<rparr>)"
  "(shift p w)\<lparr>activeJobId := a\<rparr> = shift p (w\<lparr>activeJobId := a\<rparr>)"
  by (simp_all add: shift_def)

lemma parseGsLine_shift: "parseGsLine l (shift p w) = shift p (parseGsLine l w)"
  by (simp add: parseGsLine_def Let_def shift_update emitProgress_shift
      split: option.splits prod.splits)

lemma feed_shift: "feed ls (shift p w) = shift p (feed ls w)"
  by (induction ls arbitrary: w) (simp_all add: parseGsLine_shift)

lemma reset_progress_shift: "reset_progress (shift p w) = shift p (reset_progress w)"
  by (simp add: reset_progress_def shift_def)

lemma start_job_shift: "start_job j (shift p w) = shift p (start_job j w)"
  by (simp add: start_job_def Let_def postStatus_shift shift_update emitProgress_shift)

lemma finish_job_shift: "finish_job j r (shift p w) = shift p (finish_job j r w)"
  by (simp add: finish_job_def Let_def postStatus_shift postProgress_shift postMessage_shift
      split: option.splits)

lemma shrink_shift:
  "shrinkPdfLikeScript toStr gs b opts (shift p w) =
     (fst (shrinkPdfLikeScript toStr gs b opts w), shift p (snd (shrinkPdfLikeScript toStr gs b opts w)))"
  by (simp add: shrinkPdfLikeScript_def feed_shift split: prod.splits sum.splits)

lemma handleJob_shift:
  "handleJob toStr ld msg (shift p w) =
     (fst (handleJob toStr ld msg w), shift p (snd (handleJob toStr ld msg w)))"
  by (simp add: handleJob_def Let_def postStatus_shift feed_shift start_job_shift shrink_shift
      reset_progress_shift finish_job_shift split: prod.splits sum.splits)

lemma job_link_shift: "job_link toStr m (shift p w) = shift p (job_link toStr m w)"
  by (simp add: job_link_def onmessage_def Let_def promise_resolve_def then_do_def catch_do_def
      handleJob_shift postMessage_shift split: prod.splits settled.splits)


lemma queue_after_snoc: "queue_after toStr (ms @ [m]) = onmessage toStr m (queue_after toStr ms)"
  by (simp add: queue_after_def)

lemma onmessage_fulfilled:
  "fst (q w) = Fulfilled \<Longrightarrow> onmessage toStr m q w = (Fulfilled, job_link toStr m (snd (q w)))"
  by (cases "q w")
    (simp add: job_link_def onmessage_def Let_def promise_resolve_def then_do_def catch_do_def
      split: prod.splits settled.splits)

lemma queue_after_fulfilled: "fst (queue_after toStr ms w) = Fulfilled"
proof (induction ms rule: rev_induct)
  case Nil
  then show ?case by (simp add: queue_after_def promise_resolve_def)
next
  case (snoc m ms)
  from onmessage_fulfilled [of "queue_after toStr ms" w toStr m, OF snoc.IH]
  show ?case by (simp add: queue_after_snoc)
qed

lemma run_worker_Nil: "run_worker toStr [] = worker0"
  by (simp add: run_worker_def queue_after_def promise_resolve_def)

lemma run_worker_snoc: "run_worker toStr (ms @ [m]) = job_link toStr m (run_worker toStr ms)"
  using onmessage_fulfilled [of "queue_after toStr ms" worker0 toStr m, OF queue_after_fulfilled]
  by (simp add: run_worker_def queue_after_snoc)

lemma run_worker_single: "run_worker toStr [m] = job_link toStr m worker0"
  using run_worker_snoc [of toStr "[]" m] by (simp add: run_worker_Nil)

lemma feed_inactive: "activeJobId w = None \<Longrightarrow> feed ls w = w"
  by (induction ls) (simp_all add: feed_def parseGsLine_def)

lemma clean_worker0: "clean worker0"
  by (simp add: clean_def worker0_def)

lemma clean_reset: "clean (reset_progress w)"
  by (simp add: clean_def reset_progress_def)

lemma clean_postMessage: "clean (postMessage ev w) = clean w"
  by (simp add: clean_def postMessage_def)

lemma clean_active: "clean w \<Longrightarrow> activeJobId w = None"
  by (simp add: clean_def)

lemma handleJob_clean_tried:
  "loaded ld = Inr gs \<Longrightarrow> clean (snd (handleJob toStr ld msg w))"
  by (simp add: handleJob_def Let_def clean_reset split: prod.splits sum.splits)

lemma handleJob_clean:
  assumes "clean w"
  shows "clean (snd (handleJob toStr ld msg w))"
proof (cases "loaded ld")
  case (Inl e)
  let ?w1 = "postStatus (jobId msg) (str ''loading'') (str ''Loading Ghostscript WASM'' @ [8230]) w"
  have c: "clean ?w1" using assms by (simp add: postStatus_def clean_postMessage)
  from feed_inactive [OF clean_active [OF c]] c Inl show ?thesis
    by (simp add: handleJob_def Let_def)
next
  case (Inr gs)
  then show ?thesis by (rule handleJob_clean_tried)
qed

lemma job_link_clean: "clean w \<Longrightarrow> clean (job_link toStr m w)"
  using handleJob_clean [of w toStr "snd m" "fst m"]
  by (auto simp add: job_link_def onmessage_def Let_def promise_resolve_def then_do_def catch_do_def
      clean_postMessage split: prod.splits settled.splits)

lemma run_worker_clean: "clean (run_worker toStr ms)"
  by (induction ms rule: rev_induct)
    (simp_all add: run_worker_Nil run_worker_snoc clean_worker0 job_link_clean)

lemma clean_shift: "clean w \<Longrightarrow> w = shift (posted w) worker0"
  by (simp add: clean_def shift_def worker0_def)

lemma job_link_posted:
  assumes "clean w"
  shows "posted (job_link toStr m w) = posted w @ posted (job_link toStr m worker0)"
proof -
  from clean_shift [OF assms] have "job_link toStr m w = job_link toStr m (shift (posted w) worker0)"
    by simp
  then show ?thesis by (simp add: job_link_shift)
qed

lemma run_worker_posted_snoc:
  "posted (run_worker toStr (ms @ [m])) = posted (run_worker toStr ms) @ posted (run_worker toStr [m])"
  by (simp add: run_worker_snoc run_worker_single job_link_posted [OF run_worker_clean])

lemma run_worker_concat:
  "posted (run_worker toStr ms) = concat (map (\<lambda>m. posted (run_worker toStr [m])) ms)"
proof (induction ms rule: rev_induct)
  case Nil
  then show ?case by (simp add: run_worker_Nil worker0_def)
next
  case (snoc m ms)
  then show ?case by (simp add: run_worker_posted_snoc)
qed

section \<open>What one job posts\<close>

lemma quiet_Nil [simp]: "quiet j []"
  by (simp add: quiet_def)

lemma quiet_append [simp]: "quiet j (xs @ ys) = (quiet j xs \<and> quiet j ys)"
  by (auto simp: quiet_def)

lemma quiet_Cons [simp]: "quiet j (e # es) = (ev_job e = j \<and> \<not> is_terminal e \<and> quiet j es)"
  by (auto simp: quiet_def)

lemma quiet_Status: "quiet j [Status j s m]"
  by (simp add: quiet_def)

lemma quiet_Progress: "quiet j [Progress j p c t]"
  by (simp add: quiet_def)

lemma parseGsLine_quiet:
  assumes "activeJobId w = Some j"
  shows "\<exists>evs. posted (parseGsLine l w) = posted w @ evs \<and> quiet j evs"
proof -
  from parseGsLine_posted [of l w] assms
  consider "posted (parseGsLine l w) = posted w @ []"
    | p c t where "posted (parseGsLine l w) = posted w @ [Progress j p c t]"
    by auto
  then show ?thesis
  proof cases
    case 1
    then show ?thesis using quiet_Nil by blast
  next
    case 2
    then show ?thesis using quiet_Progress by blast
  qed
qed

lemma feed_quiet:
  "activeJobId w = Some j \<Longrightarrow> \<exists>evs. posted (feed ls w) = posted w @ evs \<and> quiet j evs"
proof (induction ls arbitrary: w)
  case Nil
  have "posted (feed [] w) = posted w @ []" by simp
  then show ?case using quiet_Nil by blast
next
  case (Cons l ls)
  from parseGsLine_quiet [OF Cons.prems, of l] obtain e1 where
    e1: "posted (parseGsLine l w) = posted w @ e1" "quiet j e1" by blast
  have "activeJobId (parseGsLine l w) = Some j" using Cons.prems by simp
  from Cons.IH [OF this] obtain e2 where
    e2: "posted (feed ls (parseGsLine l w)) = posted (parseGsLine l w) @ e2" "quiet j e2" by blast
  from e1 e2 have "posted (feed (l # ls) w) = posted w @ (e1 @ e2)" "quiet j (e1 @ e2)" by simp_all
  then show ?case by blast
qed

lemma start_job_posted:
  "activeJobId (start_job j w) = Some j"
  "\<exists>evs. posted (start_job j w) = posted w @ evs \<and> quiet j evs"
proof -
  show "activeJobId (start_job j w) = Some j"
    by (simp add: start_job_def Let_def postStatus_def postMessage_def)
  have "posted (start_job j w) = posted w @
     ([Status j (str ''ready'') (str ''Ghostscript ready.'')] @
      [Progress j (percent_of (Fin 0) None) (Fin 0) None] @
      [Status j (str ''running'') (str ''Compressing'' @ [8230])])"
    by (simp add: start_job_def Let_def postStatus_def postMessage_def)
  moreover have "quiet j ([Status j (str ''ready'') (str ''Ghostscript ready.'')] @
      [Progress j (percent_of (Fin 0) None) (Fin 0) None] @
      [Status j (str ''running'') (str ''Compressing'' @ [8230])])"
    by (simp only: quiet_append quiet_Status quiet_Progress simp_thms)
  ultimately show "\<exists>evs. posted (start_job j w) = posted w @ evs \<and> quiet j evs" by blast
qed

lemma finish_job_posted:
  "\<exists>evs. posted (finish_job j r w) = posted w @ evs @ [Result j (out r) (usedOriginal r) (pdfVersionUsed r)]
      \<and> quiet j evs"
proof -
  let ?evs = "[Progress j (Fin 100) (case totalPages w of None \<Rightarrow> currentPage w | Some t \<Rightarrow> t) (totalPages w)] @
      [Status j (str ''done'') (if usedOriginal r then str ''Output larger; returned original.'' else str ''Done.'')]"
  have "posted (finish_job j r w) = posted w @ ?evs @ [Result j (out r) (usedOriginal r) (pdfVersionUsed r)]"
    by (simp add: finish_job_def Let_def postStatus_def postProgress_def postMessage_def)
  moreover have "quiet j ?evs"
    by (simp only: quiet_append quiet_Status quiet_Progress simp_thms)
  ultimately show ?thesis by blast
qed

lemma shrink_posted:
  assumes "activeJobId w = Some j"
  shows "\<exists>evs. posted (snd (shrinkPdfLikeScript toStr gs b opts w)) = posted w @ evs \<and> quiet j evs"
proof -
  obtain printed r where e: "engine_run toStr gs b opts = (printed, r)"
    by (cases "engine_run toStr gs b opts")
  then have "snd (shrinkPdfLikeScript toStr gs b opts w) = feed printed w"
    by (simp add: shrinkPdfLikeScript_def split: sum.splits prod.splits)
  with feed_quiet [OF assms, of printed] show ?thesis by simp
qed

lemma reset_progress_posted [simp]: "posted (reset_progress w) = posted w"
  by (simp add: reset_progress_def)

text \<open>
  What one job posts: the \<open>loading\<close> status, messages of its own that are not
  terminal, and then, if it is fulfilled, its result.
\<close>

lemma handleJob_posted:
  assumes "activeJobId w = None"
  shows "\<exists>evs. quiet (jobId msg) evs \<and>
     (case fst (handleJob toStr ld msg w) of
        Fulfilled \<Rightarrow> \<exists>b u v. posted (snd (handleJob toStr ld msg w)) =
            posted w @ Status (jobId msg) (str ''loading'') (str ''Loading Ghostscript WASM'' @ [8230]) #
              evs @ [Result (jobId msg) b u v]
      | Rejected e \<Rightarrow> posted (snd (handleJob toStr ld msg w)) =
            posted w @ Status (jobId msg) (str ''loading'') (str ''Loading Ghostscript WASM'' @ [8230]) #
              evs)"
proof -
  let ?j = "jobId msg"
  let ?st = "Status ?j (str ''loading'') (str ''Loading Ghostscript WASM'' @ [8230])"
  let ?w1 = "postStatus ?j (str ''loading'') (str ''Loading Ghostscript WASM'' @ [8230]) w"
  have w1: "posted ?w1 = posted w @ [?st]" "activeJobId ?w1 = None"
    using assms by (simp_all add: postStatus_def postMessage_def)
  have w2: "feed (boot_lines ld) ?w1 = ?w1" by (rule feed_inactive) (rule w1(2))
  show ?thesis
  proof (cases "loaded ld")
    case (Inl e)
    then have "handleJob toStr ld msg w = (Rejected e, ?w1)"
      by (simp add: handleJob_def Let_def w2)
    then have "fst (handleJob toStr ld msg w) = Rejected e"
      "posted (snd (handleJob toStr ld msg w)) = posted w @ ?st # []" by (simp_all add: w1)
    then show ?thesis by (intro exI [of _ "[]"]) simp
  next
    case (Inr gs)
    let ?w6 = "start_job ?j ?w1"
    from start_job_posted [of ?j ?w1] obtain e1 where
      e1: "posted ?w6 = posted ?w1 @ e1" "quiet ?j e1" and a6: "activeJobId ?w6 = Some ?j" by blast
    obtain r w7 where s: "shrinkPdfLikeScript toStr gs (pdfBuffer msg) (options msg) ?w6 = (r, w7)"
      by (cases "shrinkPdfLikeScript toStr gs (pdfBuffer msg) (options msg) ?w6")
    from shrink_posted [OF a6, of toStr gs "pdfBuffer msg" "options msg"] s obtain e2 where
      e2: "posted w7 = posted ?w6 @ e2" "quiet ?j e2" by auto
    show ?thesis
    proof (cases r)
      case (Inl e)
      with Inr s have "handleJob toStr ld msg w = (Rejected e, reset_progress w7)"
        by (simp add: handleJob_def Let_def w2)
      then have "fst (handleJob toStr ld msg w) = Rejected e"
        "posted (snd (handleJob toStr ld msg w)) = posted w @ ?st # (e1 @ e2)"
        by (simp_all add: e2 e1 w1)
      moreover have "quiet ?j (e1 @ e2)" using e1(2) e2(2) by simp
      ultimately show ?thesis by (intro exI [of _ "e1 @ e2"]) simp
    next
      case (Inr res)
      from finish_job_posted [of ?j res w7] obtain e3 where
        e3: "posted (finish_job ?j res w7) =
               posted w7 @ e3 @ [Result ?j (out res) (usedOriginal res) (pdfVersionUsed res)]"
          "quiet ?j e3" by blast
      from Inr \<open>loaded ld = Inr gs\<close> s
      have "handleJob toStr ld msg w = (Fulfilled, reset_progress (finish_job ?j res w7))"
        by (simp add: handleJob_def Let_def w2)
      then have "fst (handleJob toStr ld msg w) = Fulfilled"
        "posted (snd (handleJob toStr ld msg w)) =
           posted w @ ?st # (e1 @ e2 @ e3) @
             [Result ?j (out res) (usedOriginal res) (pdfVersionUsed res)]"
        by (simp_all add: e3 e2 e1 w1)
      moreover have "quiet ?j (e1 @ e2 @ e3)" using e1(2) e2(2) e3(2) by simp
      ultimately show ?thesis by (intro exI [of _ "e1 @ e2 @ e3"]) auto
    qed
  qed
qed

lemma job_link_other: "\<not> is_compress m \<Longrightarrow> job_link toStr m w = w"
  by (simp add: job_link_def onmessage_def is_compress_def promise_resolve_def Let_def)

lemma job_link_segment:
  assumes "is_compress m" "activeJobId w = None"
  shows "\<exists>evs t. posted (job_link toStr m w) =
             posted w @ Status (jobId (fst m)) (str ''loading'')
               (str ''Loading Ghostscript WASM'' @ [8230]) # evs @ [t] \<and>
           quiet (jobId (fst m)) evs \<and> is_terminal t \<and> ev_job t = jobId (fst m)"
proof -
  let ?h = "handleJob toStr (snd m) (fst m) w"
  let ?st = "Status (jobId (fst m)) (str ''loading'') (str ''Loading Ghostscript WASM'' @ [8230])"
  from handleJob_posted [OF assms(2), of "fst m" toStr "snd m"] obtain evs where
    q: "quiet (jobId (fst m)) evs" and
    c: "case fst ?h of
          Fulfilled \<Rightarrow> \<exists>b u v. posted (snd ?h) =
                         posted w @ ?st # evs @ [Result (jobId (fst m)) b u v]
        | Rejected e \<Rightarrow> posted (snd ?h) = posted w @ ?st # evs" by blast
  show ?thesis
  proof (cases "fst ?h")
    case Fulfilled
    with c obtain b u v where
      "posted (snd ?h) = posted w @ ?st # evs @ [Result (jobId (fst m)) b u v]"
      by auto
    moreover have "job_link toStr m w = snd ?h"
      using assms(1) Fulfilled
      by (cases ?h) (simp add: job_link_def onmessage_def is_compress_def promise_resolve_def
          Let_def then_do_def catch_do_def)
    ultimately have "posted (job_link toStr m w) =
        posted w @ ?st # evs @ [Result (jobId (fst m)) b u v]"
      by simp
    with q show ?thesis by (intro exI [of _ evs] exI [of _ "Result (jobId (fst m)) b u v"]) simp
  next
    case (Rejected e)
    with c have "posted (snd ?h) = posted w @ ?st # evs" by simp
    moreover have "job_link toStr m w = postMessage (Error (jobId (fst m)) (message_of e)) (snd ?h)"
      using assms(1) Rejected
      by (cases ?h) (simp add: job_link_def onmessage_def is_compress_def promise_resolve_def
          Let_def then_do_def catch_do_def)
    ultimately have "posted (job_link toStr m w) =
        posted w @ ?st # evs @ [Error (jobId (fst m)) (message_of e)]"
      by (simp add: postMessage_def)
    with q show ?thesis
      by (intro exI [of _ evs] exI [of _ "Error (jobId (fst m)) (message_of e)"]) simp
  qed
qed

lemma run_single_other: "\<not> is_compress m \<Longrightarrow> posted (run_worker toStr [m]) = []"
  by (simp add: run_worker_single job_link_other worker0_def)

lemma run_single_first:
  assumes "is_compress m"
  shows "\<exists>evs t. posted (run_worker toStr [m]) =
             Status (jobId (fst m)) (str ''loading'') (str ''Loading Ghostscript WASM'' @ [8230]) #
               evs @ [t] \<and>
           quiet (jobId (fst m)) evs \<and> is_terminal t \<and> ev_job t = jobId (fst m)"
proof -
  have "activeJobId worker0 = None" "posted worker0 = []" by (simp_all add: worker0_def)
  with job_link_segment [OF assms, of worker0 toStr] show ?thesis
    by (simp add: run_worker_single)
qed

lemma run_single_segment:
  assumes "is_compress m"
  shows "\<exists>evs t. posted (run_worker toStr [m]) = evs @ [t] \<and>
           quiet (jobId (fst m)) evs \<and> is_terminal t \<and> ev_job t = jobId (fst m)"
proof -
  let ?st = "Status (jobId (fst m)) (str ''loading'') (str ''Loading Ghostscript WASM'' @ [8230])"
  from run_single_first [OF assms, of toStr] obtain evs t where
    "posted (run_worker toStr [m]) = (?st # evs) @ [t]" "quiet (jobId (fst m)) evs"
    "is_terminal t" "ev_job t = jobId (fst m)" by auto
  moreover from this have "quiet (jobId (fst m)) (?st # evs)" by simp
  ultimately show ?thesis by blast
qed

lemma filter_quiet: "quiet j evs \<Longrightarrow> filter is_terminal evs = []"
  by (induction evs) simp_all

lemma filter_quiet_job: "quiet j evs \<Longrightarrow> filter (\<lambda>e. is_terminal e \<and> ev_job e = k) evs = []"
  by (induction evs) simp_all

lemma run_single_terminals:
  "filter is_terminal (posted (run_worker toStr [m])) =
     (if is_compress m then [last (posted (run_worker toStr [m]))] else [])"
proof (cases "is_compress m")
  case True
  from run_single_segment [OF True, of toStr] obtain evs t where
    "posted (run_worker toStr [m]) = evs @ [t]" "quiet (jobId (fst m)) evs" "is_terminal t" by blast
  with True show ?thesis by (simp add: filter_quiet)
next
  case False
  then show ?thesis by (simp add: run_single_other)
qed

lemma run_single_count:
  "length (filter (\<lambda>e. is_terminal e \<and> ev_job e = j) (posted (run_worker toStr [m]))) =
     (if is_compress m \<and> jobId (fst m) = j then 1 else 0)"
proof (cases "is_compress m")
  case True
  from run_single_segment [OF True, of toStr] obtain evs t where
    "posted (run_worker toStr [m]) = evs @ [t]" "quiet (jobId (fst m)) evs" "is_terminal t"
    "ev_job t = jobId (fst m)" by blast
  with True show ?thesis by (simp add: filter_quiet_job)
next
  case False
  then show ?thesis by (simp add: run_single_other)
qed

lemma page_3_parsed: "match_total (str ''Page 3'') = None" "match_page (str ''Page 3'') = Some (str ''3'')"
  "Number_of (str ''3'') = Fin 3"
  by (simp_all add: re_eval Number_of_def digit_value_def rnd_eval)

lemma run_failing:
  "posted (run_worker demo_toStr [failing_job]) =
     [Status (str ''a'') (str ''loading'') (str ''Loading Ghostscript WASM'' @ [8230]),
      Status (str ''a'') (str ''ready'') (str ''Ghostscript ready.''),
      Progress (str ''a'') (Fin 0) (Fin 0) None,
      Status (str ''a'') (str ''running'') (str ''Compressing'' @ [8230]),
      Progress (str ''a'') (Fin 0) (Fin 3) None,
      Error (str ''a'') (str ''boom'')]"
proof -
  have ne: "str ''a'' \<noteq> []" "msg_type (compress_msg (str ''a'') [7, 8]) = str ''compress''"
    by (simp_all add: str_def compress_msg_def)
  have e: "engine_run demo_toStr (memfs_gs [str ''Page 3''] (Some (ErrorObject (str ''boom''))) None)
      [7, 8] no_options = ([str ''Page 3''], Inl (ErrorObject (str ''boom'')))"
    by (simp add: engine_run_def memfs_gs_def Let_def)
  show ?thesis
    by (simp add: run_worker_single job_link_def onmessage_def failing_job_def ne Let_def
        promise_resolve_def then_do_def catch_do_def handleJob_def start_job_def
        shrinkPdfLikeScript_def e compress_msg_def worker0_def postStatus_def postMessage_def
        emitProgress_def postProgress_def percent_of_def parseGsLine_def page_3_parsed reset_progress_def)
qed


lemma run_good:
  "posted (run_worker demo_toStr [good_job]) =
     [Status (str ''b'') (str ''loading'') (str ''Loading Ghostscript WASM'' @ [8230]),
      Status (str ''b'') (str ''ready'') (str ''Ghostscript ready.''),
      Progress (str ''b'') (Fin 0) (Fin 0) None,
      Status (str ''b'') (str ''running'') (str ''Compressing'' @ [8230]),
      Progress (str ''b'') (Fin 100) (Fin 0) None,
      Status (str ''b'') (str ''done'') (str ''Done.''),
      Result (str ''b'') [1] False (str ''1.5'')]"
proof -
  have ne: "msg_type (compress_msg (str ''b'') [7, 8]) = str ''compress''"
    by (simp_all add: compress_msg_def)
  have e: "engine_run demo_toStr (memfs_gs [] None (Some [1])) [7, 8] no_options = ([], Inr ([1], str ''1.5''))"
    by (simp add: engine_run_memfs detect_two_bytes)
  show ?thesis
    by (simp add: run_worker_single job_link_def onmessage_def good_job_def ne Let_def
        promise_resolve_def then_do_def catch_do_def handleJob_def start_job_def finish_job_def
        shrinkPdfLikeScript_def e compress_msg_def worker0_def postStatus_def postMessage_def
        emitProgress_def postProgress_def percent_of_def reset_progress_def)
qed

section \<open>The parser without an active job\<close>

text \<open>
  Claim C10. A line that reaches \<open>parseGsLine\<close> while \<open>activeJobId\<close> is null changes
  nothing: the worker is the same afterwards, so \<open>currentPage\<close> and \<open>totalPages\<close> are
  unchanged and no message is posted, whatever the line is.
\<close>

theorem parseGsLine_no_active_job:
  "activeJobId w = None \<Longrightarrow>
     parseGsLine line w = w \<and>
     currentPage (parseGsLine line w) = currentPage w \<and>
     totalPages (parseGsLine line w) = totalPages w \<and>
     posted (parseGsLine line w) = posted w"
  by (simp add: parseGsLine_def)

theorem parseGsLine_no_active_job_witness:
  "activeJobId worker0 = None \<and>
   parseGsLine (str ''Page 3'') worker0 = worker0 \<and>
   posted (parseGsLine (str ''Processing pages 1 through 5.'') worker0) = []"
  using parseGsLine_no_active_job [of worker0 "str ''Page 3''"]
    parseGsLine_no_active_job [of worker0 "str ''Processing pages 1 through 5.''"]
  by (simp add: worker0_def)

section \<open>The fallback to the input\<close>

text \<open>
  Claim C1. Whenever the engine delivers an output \<open>outb\<close> for a job,
  \<open>shrinkPdfLikeScript\<close> returns the input bytes with \<open>usedOriginal = true\<close> if the
  output is strictly longer than the input, and the output bytes with
  \<open>usedOriginal = false\<close> otherwise; the job is fulfilled and its last message is the
  result with these bytes and this flag.
\<close>

theorem fallback_policy:
  assumes "snd (engine_run toStr gs (pdfBuffer msg) (options msg)) = Inr (outb, ver)"
    and "loaded ld = Inr gs"
  shows "fst (shrinkPdfLikeScript toStr gs (pdfBuffer msg) (options msg) w) =
           Inr \<lparr>out = (if length (pdfBuffer msg) < length outb then pdfBuffer msg else outb),
                usedOriginal = (length (pdfBuffer msg) < length outb),
                pdfVersionUsed = ver\<rparr> \<and>
         fst (handleJob toStr ld msg w) = Fulfilled \<and>
         last (posted (snd (handleJob toStr ld msg w))) =
           Result (jobId msg)
             (if length (pdfBuffer msg) < length outb then pdfBuffer msg else outb)
             (length (pdfBuffer msg) < length outb) ver"
  using assms
  by (auto simp: shrinkPdfLikeScript_def handleJob_def Let_def finish_job_def postMessage_def
      reset_progress_def split: prod.splits sum.splits)

theorem fallback_policy_witness:
  "last (posted (snd (handleJob demo_toStr
       \<lparr>boot_lines = [], loaded = Inr (memfs_gs [] None (Some [1, 2, 3]))\<rparr>
       (compress_msg (str ''a'') [7, 8]) worker0))) =
     Result (str ''a'') [7, 8] True (str ''1.5'') \<and>
   last (posted (snd (handleJob demo_toStr
       \<lparr>boot_lines = [], loaded = Inr (memfs_gs [] None (Some [1]))\<rparr>
       (compress_msg (str ''a'') [7, 8]) worker0))) =
     Result (str ''a'') [1] False (str ''1.5'')"
proof -
  have a: "snd (engine_run demo_toStr (memfs_gs [] None (Some [1, 2, 3]))
             (pdfBuffer (compress_msg (str ''a'') [7, 8]))
             (options (compress_msg (str ''a'') [7, 8]))) = Inr ([1, 2, 3], str ''1.5'')"
    by (simp add: engine_run_memfs compress_msg_def detect_two_bytes)
  have b: "snd (engine_run demo_toStr (memfs_gs [] None (Some [1]))
             (pdfBuffer (compress_msg (str ''a'') [7, 8]))
             (options (compress_msg (str ''a'') [7, 8]))) = Inr ([1], str ''1.5'')"
    by (simp add: engine_run_memfs compress_msg_def detect_two_bytes)
  have la: "loaded \<lparr>boot_lines = [], loaded = Inr (memfs_gs [] None (Some [1, 2, 3]))\<rparr> =
              Inr (memfs_gs [] None (Some [1, 2, 3]))"
    and lb: "loaded \<lparr>boot_lines = [], loaded = Inr (memfs_gs [] None (Some [1]))\<rparr> =
              Inr (memfs_gs [] None (Some [1]))"
    by simp_all
  from fallback_policy [OF a la, of worker0] fallback_policy [OF b lb, of worker0]
  show ?thesis by (simp add: compress_msg_def)
qed

section \<open>The end of the argument list\<close>

lemma gs_args_gray_example:
  "gs_args demo_toStr (no_options\<lparr>grayscale := Some True\<rparr>) (str ''1.5'') (str ''/in.pdf'')
     (str ''/out.pdf'') =
   take 22 (gs_args demo_toStr (no_options\<lparr>grayscale := Some True\<rparr>) (str ''1.5'')
     (str ''/in.pdf'') (str ''/out.pdf'')) @ [str ''-dOverrideICC'', str ''/in.pdf'']"
  by (simp add: gs_args_def no_options_def Let_def)

lemma gs_args_gray_length:
  "length (gs_args toStr (no_options\<lparr>grayscale := Some True\<rparr>) v inPath outPath) = 24"
  by (simp add: gs_args_def no_options_def Let_def)

text \<open>
  Claim C5, as stated, fails when \<open>grayscale\<close> is true: of the 24 arguments the last
  two are \<open>-dOverrideICC\<close> and the input path, not the output-file argument and the
  input path.
\<close>

theorem gs_args_gray_counterexample:
  "length (gs_args demo_toStr (no_options\<lparr>grayscale := Some True\<rparr>) (str ''1.5'')
     (str ''/in.pdf'') (str ''/out.pdf'')) = 24 \<and>
   drop 22 (gs_args demo_toStr (no_options\<lparr>grayscale := Some True\<rparr>) (str ''1.5'')
     (str ''/in.pdf'') (str ''/out.pdf'')) = [str ''-dOverrideICC'', str ''/in.pdf''] \<and>
   drop 22 (gs_args demo_toStr (no_options\<lparr>grayscale := Some True\<rparr>) (str ''1.5'')
     (str ''/in.pdf'') (str ''/out.pdf'')) \<noteq>
     [str ''-sOutputFile='' @ str ''/out.pdf'', str ''/in.pdf'']"
proof -
  have "drop 22 (gs_args demo_toStr (no_options\<lparr>grayscale := Some True\<rparr>) (str ''1.5'')
     (str ''/in.pdf'') (str ''/out.pdf'')) = [str ''-dOverrideICC'', str ''/in.pdf'']"
    by (subst gs_args_gray_example) (simp add: gs_args_gray_length)
  moreover have "str ''-dOverrideICC'' \<noteq> str ''-sOutputFile='' @ str ''/out.pdf''"
    by (simp add: str_def)
  ultimately show ?thesis by (simp add: gs_args_gray_length)
qed

text \<open>
  Claim C5, amended. The input path is always the last argument. Without
  \<open>grayscale\<close> the output-file argument stands directly before it, so these two are
  the final two arguments. With \<open>grayscale\<close> the three grayscale arguments stand
  between them: the list ends with the output-file argument, the three grayscale
  arguments and the input path.
\<close>

theorem gs_args_end:
  "last (gs_args toStr opts v inPath outPath) = inPath \<and>
   (grayscale opts \<noteq> Some True \<longrightarrow>
      drop (length (gs_args toStr opts v inPath outPath) - 2) (gs_args toStr opts v inPath outPath) =
        [str ''-sOutputFile='' @ outPath, inPath]) \<and>
   (grayscale opts = Some True \<longrightarrow>
      drop (length (gs_args toStr opts v inPath outPath) - 5) (gs_args toStr opts v inPath outPath) =
        [str ''-sOutputFile='' @ outPath, str ''-sProcessColorModel=DeviceGray'',
         str ''-sColorConversionStrategy=Gray'', str ''-dOverrideICC'', inPath])"
  by (cases "grayscale opts") (auto simp: gs_args_def Let_def)

theorem gs_args_end_witness:
  "drop (length (gs_args demo_toStr no_options (str ''1.5'') (str ''/in.pdf'') (str ''/out.pdf'')) - 2)
     (gs_args demo_toStr no_options (str ''1.5'') (str ''/in.pdf'') (str ''/out.pdf'')) =
     [str ''-sOutputFile='' @ str ''/out.pdf'', str ''/in.pdf''] \<and>
   drop (length (gs_args demo_toStr (no_options\<lparr>grayscale := Some True\<rparr>) (str ''1.5'')
           (str ''/in.pdf'') (str ''/out.pdf'')) - 5)
     (gs_args demo_toStr (no_options\<lparr>grayscale := Some True\<rparr>) (str ''1.5'')
           (str ''/in.pdf'') (str ''/out.pdf'')) =
     [str ''-sOutputFile='' @ str ''/out.pdf'', str ''-sProcessColorModel=DeviceGray'',
      str ''-sColorConversionStrategy=Gray'', str ''-dOverrideICC'', str ''/in.pdf'']"
  using gs_args_end [of demo_toStr no_options "str ''1.5''" "str ''/in.pdf''" "str ''/out.pdf''"]
    gs_args_end [of demo_toStr "no_options\<lparr>grayscale := Some True\<rparr>" "str ''1.5''"
      "str ''/in.pdf''" "str ''/out.pdf''"]
  by (simp add: no_options_def)

section \<open>The percentage that is posted\<close>




section \<open>Pages over a job\<close>




section \<open>Two lines of a log\<close>

text \<open>
  Claim C7, as stated, fails: after the two lines the total is 10 and the page is 5,
  but the percentage posted is 50, not 40.
\<close>

theorem two_lines_counterexample:
  "\<not> (totalPages (feed [str ''Processing pages 3 through 12.'', str ''Page 5'']
          (job_worker (str ''job''))) = Some (Fin 10) \<and>
       currentPage (feed [str ''Processing pages 3 through 12.'', str ''Page 5'']
          (job_worker (str ''job''))) = Fin 5 \<and>
       ev_percent (last (posted (feed [str ''Processing pages 3 through 12.'', str ''Page 5'']
          (job_worker (str ''job''))))) = Some (Fin 40))"
proof -
  have "str ''job'' \<noteq> []" by (simp add: str_def)
  from feed_two_lines [OF this] show ?thesis by simp
qed

text \<open>
  Claim C7, amended. For a job with a non-empty identifier, the line
  \<open>Processing pages 3 through 12.\<close> followed by the line \<open>Page 5\<close> gives total 10 and
  page 5, and posts two progress messages: 0 percent at page 0 of 10, then 50 percent at
  page 5 of 10.
\<close>

theorem two_lines:
  "j \<noteq> [] \<Longrightarrow>
     feed [str ''Processing pages 3 through 12.'', str ''Page 5''] (job_worker j) =
       \<lparr>activeJobId = Some j, totalPages = Some (Fin 10), currentPage = Fin 5,
        posted = [Progress j (Fin 0) (Fin 0) (Some (Fin 10)),
                  Progress j (Fin 50) (Fin 5) (Some (Fin 10))]\<rparr>"
  by (rule feed_two_lines)

theorem two_lines_witness:
  "str ''job'' \<noteq> [] \<and>
   feed [str ''Processing pages 3 through 12.'', str ''Page 5''] (job_worker (str ''job'')) =
     \<lparr>activeJobId = Some (str ''job''), totalPages = Some (Fin 10), currentPage = Fin 5,
      posted = [Progress (str ''job'') (Fin 0) (Fin 0) (Some (Fin 10)),
                Progress (str ''job'') (Fin 50) (Fin 5) (Some (Fin 10))]\<rparr>"
proof -
  have ne: "str ''job'' \<noteq> []" by (simp add: str_def)
  from two_lines [OF ne] ne show ?thesis by simp
qed

section \<open>The version of the input\<close>



section \<open>The queue\<close>

text \<open>
  Claim C2. The messages of a run are the messages of its jobs one after the other in
  the order of submission, each job's messages being those it posts when it is run
  alone. A \<open>compress\<close> job posts messages of its own identifier only, the first of
  them the \<open>loading\<close> status that \<open>handleJob\<close> begins with and the last of them its
  terminal message. So no job begins before the one submitted before it has posted its
  terminal message (at most one job runs at a time), what a job posts does not depend
  on whether the jobs before it failed, and the terminal messages of the run are those
  of its jobs in the order of submission.
\<close>

theorem queue_order:
  "posted (run_worker toStr ms) = concat (map (\<lambda>m. posted (run_worker toStr [m])) ms) \<and>
   filter is_terminal (posted (run_worker toStr ms)) =
     map (\<lambda>m. last (posted (run_worker toStr [m]))) (filter is_compress ms) \<and>
   (\<forall>m\<in>set ms. is_compress m \<longrightarrow>
      hd (posted (run_worker toStr [m])) =
        Status (jobId (fst m)) (str ''loading'') (str ''Loading Ghostscript WASM'' @ [8230]) \<and>
      (\<forall>e\<in>set (posted (run_worker toStr [m])). ev_job e = jobId (fst m)) \<and>
      is_terminal (last (posted (run_worker toStr [m]))))"
proof (intro conjI)
  show c: "posted (run_worker toStr ms) = concat (map (\<lambda>m. posted (run_worker toStr [m])) ms)"
    by (rule run_worker_concat)
  show "filter is_terminal (posted (run_worker toStr ms)) =
     map (\<lambda>m. last (posted (run_worker toStr [m]))) (filter is_compress ms)"
  proof (induction ms rule: rev_induct)
    case Nil
    then show ?case by (simp add: run_worker_Nil worker0_def)
  next
    case (snoc m ms)
    then show ?case by (simp add: run_worker_posted_snoc run_single_terminals)
  qed
  show "\<forall>m\<in>set ms. is_compress m \<longrightarrow>
      hd (posted (run_worker toStr [m])) =
        Status (jobId (fst m)) (str ''loading'') (str ''Loading Ghostscript WASM'' @ [8230]) \<and>
      (\<forall>e\<in>set (posted (run_worker toStr [m])). ev_job e = jobId (fst m)) \<and>
      is_terminal (last (posted (run_worker toStr [m])))"
  proof (intro ballI impI)
    fix m :: "CompressMsg \<times> 'a gs_load"
    assume "is_compress m"
    from run_single_first [OF this, of toStr] obtain evs t where
      "posted (run_worker toStr [m]) =
         Status (jobId (fst m)) (str ''loading'') (str ''Loading Ghostscript WASM'' @ [8230]) #
           evs @ [t]"
      "quiet (jobId (fst m)) evs" "is_terminal t" "ev_job t = jobId (fst m)" by blast
    then show "hd (posted (run_worker toStr [m])) =
        Status (jobId (fst m)) (str ''loading'') (str ''Loading Ghostscript WASM'' @ [8230]) \<and>
      (\<forall>e\<in>set (posted (run_worker toStr [m])). ev_job e = jobId (fst m)) \<and>
      is_terminal (last (posted (run_worker toStr [m])))"
      by (auto simp: quiet_def)
  qed
qed

theorem queue_order_witness:
  "posted (run_worker demo_toStr [failing_job, good_job]) =
     posted (run_worker demo_toStr [failing_job]) @ posted (run_worker demo_toStr [good_job]) \<and>
   filter is_terminal (posted (run_worker demo_toStr [failing_job, good_job])) =
     [Error (str ''a'') (str ''boom''), Result (str ''b'') [1] False (str ''1.5'')]"
proof -
  have c: "is_compress failing_job" "is_compress good_job"
    by (simp_all add: is_compress_def failing_job_def good_job_def compress_msg_def)
  from queue_order [of demo_toStr "[failing_job, good_job]"] c show ?thesis
    by (simp add: run_failing run_good)
qed

section \<open>One terminal message for each job\<close>

text \<open>
  Claim C3. In every run the number of terminal messages (\<open>result\<close> or \<open>error\<close>) that
  carry an identifier is the number of \<open>compress\<close> messages submitted with it: one
  for a job whose identifier is its own. Each \<open>compress\<close> job adds to the messages
  posted before it a block of non-terminal messages of its own and then exactly one
  terminal message, which is a result or an error, never both.
\<close>

theorem one_terminal_event:
  "length (filter (\<lambda>e. is_terminal e \<and> ev_job e = j) (posted (run_worker toStr ms))) =
     length (filter (\<lambda>m. is_compress m \<and> jobId (fst m) = j) ms) \<and>
   (is_compress m \<longrightarrow>
      (\<exists>evs t. posted (run_worker toStr (ms @ [m])) = posted (run_worker toStr ms) @ evs @ [t] \<and>
         (\<forall>e\<in>set evs. ev_job e = jobId (fst m) \<and> \<not> is_terminal e) \<and>
         is_terminal t \<and> ev_job t = jobId (fst m)))"
proof
  show "length (filter (\<lambda>e. is_terminal e \<and> ev_job e = j) (posted (run_worker toStr ms))) =
     length (filter (\<lambda>m. is_compress m \<and> jobId (fst m) = j) ms)"
  proof (induction ms rule: rev_induct)
    case Nil
    then show ?case by (simp add: run_worker_Nil worker0_def)
  next
    case (snoc m ms)
    then show ?case by (simp add: run_worker_posted_snoc run_single_count)
  qed
  show "is_compress m \<longrightarrow>
      (\<exists>evs t. posted (run_worker toStr (ms @ [m])) = posted (run_worker toStr ms) @ evs @ [t] \<and>
         (\<forall>e\<in>set evs. ev_job e = jobId (fst m) \<and> \<not> is_terminal e) \<and>
         is_terminal t \<and> ev_job t = jobId (fst m))"
  proof
    assume "is_compress m"
    from run_single_segment [OF this, of toStr] show "\<exists>evs t.
       posted (run_worker toStr (ms @ [m])) = posted (run_worker toStr ms) @ evs @ [t] \<and>
         (\<forall>e\<in>set evs. ev_job e = jobId (fst m) \<and> \<not> is_terminal e) \<and>
         is_terminal t \<and> ev_job t = jobId (fst m)"
      unfolding run_worker_posted_snoc [of toStr ms m] quiet_def by auto
  qed
qed

theorem one_terminal_event_witness:
  "length (filter (\<lambda>e. is_terminal e \<and> ev_job e = str ''a'')
      (posted (run_worker demo_toStr [failing_job, good_job]))) = 1 \<and>
   length (filter (\<lambda>e. is_terminal e \<and> ev_job e = str ''b'')
      (posted (run_worker demo_toStr [failing_job, good_job]))) = 1"
proof -
  have c: "is_compress failing_job" "is_compress good_job"
    "jobId (fst failing_job) = str ''a''" "jobId (fst good_job) = str ''b''" "str ''a'' \<noteq> str ''b''"
    by (simp_all add: is_compress_def failing_job_def good_job_def compress_msg_def str_def)
  from one_terminal_event [of "str ''a''" demo_toStr "[failing_job, good_job]" good_job]
    one_terminal_event [of "str ''b''" demo_toStr "[failing_job, good_job]" good_job] c
  show ?thesis by simp
qed

section \<open>Progress is reset after every job\<close>

text \<open>
  Claim C9. A job that starts with the progress variables reset leaves them reset,
  whether it is fulfilled or rejected; once the engine was created this holds from any
  state, since the \<open>finally\<close> block resets them. After any sequence of jobs
  \<open>activeJobId\<close> is null, \<open>currentPage\<close> is 0 and \<open>totalPages\<close> is null, and this is
  the state in which the link of the next message starts.
\<close>

theorem progress_reset:
  "(clean w \<longrightarrow> clean (snd (handleJob toStr ld msg w))) \<and>
   (\<forall>gs. loaded ld = Inr gs \<longrightarrow> clean (snd (handleJob toStr ld msg w))) \<and>
   run_worker toStr (ms @ [m]) = job_link toStr m (run_worker toStr ms) \<and>
   activeJobId (run_worker toStr ms) = None \<and>
   currentPage (run_worker toStr ms) = Fin 0 \<and>
   totalPages (run_worker toStr ms) = None"
proof -
  have a: "clean w \<longrightarrow> clean (snd (handleJob toStr ld msg w))"
    by (simp add: handleJob_clean)
  have b: "\<forall>gs. loaded ld = Inr gs \<longrightarrow> clean (snd (handleJob toStr ld msg w))"
    by (simp add: handleJob_clean_tried)
  have c: "run_worker toStr (ms @ [m]) = job_link toStr m (run_worker toStr ms)"
    by (rule run_worker_snoc)
  have d: "activeJobId (run_worker toStr ms) = None \<and> currentPage (run_worker toStr ms) = Fin 0 \<and>
           totalPages (run_worker toStr ms) = None"
    using run_worker_clean [of toStr ms] by (simp add: clean_def)
  from a b c d show ?thesis by (intro conjI) simp_all
qed

theorem progress_reset_witness:
  "fst (handleJob demo_toStr (snd failing_job) (fst failing_job) worker0) =
     Rejected (ErrorObject (str ''boom'')) \<and>
   clean (snd (handleJob demo_toStr (snd failing_job) (fst failing_job) worker0)) \<and>
   activeJobId (run_worker demo_toStr [failing_job, good_job]) = None \<and>
   currentPage (run_worker demo_toStr [failing_job, good_job]) = Fin 0 \<and>
   totalPages (run_worker demo_toStr [failing_job, good_job]) = None"
proof -
  have e: "engine_run demo_toStr (memfs_gs [str ''Page 3''] (Some (ErrorObject (str ''boom''))) None)
      [7, 8] no_options = ([str ''Page 3''], Inl (ErrorObject (str ''boom'')))"
    by (simp add: engine_run_def memfs_gs_def Let_def)
  have f: "fst (handleJob demo_toStr (snd failing_job) (fst failing_job) worker0) =
     Rejected (ErrorObject (str ''boom''))"
    by (simp add: failing_job_def handleJob_def Let_def shrinkPdfLikeScript_def e compress_msg_def)
  from progress_reset [of worker0 demo_toStr "snd failing_job" "fst failing_job"
      "[failing_job, good_job]" good_job] clean_worker0 f
  show ?thesis by simp
qed

end
